theory Spec2Isabelle
  imports Complex_Main "HOL-Library.Sublist" "HOL-Library.AList" "HOL-Library.Word"
begin

section \<open>Strings and path names\<close>

text \<open>
  Python strings are modelled as \<^typ>\<open>string\<close>. The helpers below follow
  \<^verbatim>\<open>str.endswith\<close>, \<^verbatim>\<open>str.replace\<close>, \<^verbatim>\<open>posixpath.join\<close> and
  \<^verbatim>\<open>posixpath.basename\<close>.
\<close>

definition endswith :: "string \<Rightarrow> string \<Rightarrow> bool" where
  "endswith s sfx \<longleftrightarrow> length sfx \<le> length s \<and> drop (length s - length sfx) s = sfx"

function str_replace :: "string \<Rightarrow> string \<Rightarrow> string \<Rightarrow> string" where
  "str_replace old new s =
     (if old = [] then new @ concat (map (\<lambda>c. c # new) s)
      else if s = [] then []
      else if prefix old s then new @ str_replace old new (drop (length old) s)
      else hd s # str_replace old new (tl s))"
  by pat_completeness auto
termination
  by (relation "measure (\<lambda>(old, new, s). length s)") auto

definition path_join :: "string \<Rightarrow> string \<Rightarrow> string" where
  "path_join a b =
     (if b \<noteq> [] \<and> hd b = CHR ''/'' then b
      else if a = [] \<or> last a = CHR ''/'' then a @ b
      else a @ ''/'' @ b)"

definition basename :: "string \<Rightarrow> string" where
  "basename p = rev (takeWhile (\<lambda>c. c \<noteq> CHR ''/'') (rev p))"

fun split_sep :: "string \<Rightarrow> string list" where
  "split_sep [] = [[]]"
| "split_sep (c # cs) =
     (if c = CHR ''/'' then [] # split_sep cs
      else (case split_sep cs of [] \<Rightarrow> [[c]] | w # ws \<Rightarrow> (c # w) # ws))"

fun join_sep :: "string list \<Rightarrow> string" where
  "join_sep [] = []"
| "join_sep [c] = c"
| "join_sep (c # d # cs) = c @ ''/'' @ join_sep (d # cs)"

text \<open>
  A plain name is a single path component that names a directory entry. A path string is
  followed by the model when it is a sequence of plain names separated by single
  slashes; \<open>resolve sp p\<close> gives the components of \<open>p\<close> below the storage root \<open>sp\<close>
  (the value of \<^verbatim>\<open>settings.STORAGE_PATH\<close>, which is a parameter here: the settings
  module is not part of the sources). Paths that leave the storage root, or that have
  empty, \<^verbatim>\<open>.\<close> or \<^verbatim>\<open>..\<close> components, are not followed: \<open>resolve\<close> gives \<open>None\<close>
  and the operations answer \<open>Unresolved\<close>.
\<close>

definition plain_name :: "string \<Rightarrow> bool" where
  "plain_name n \<longleftrightarrow> n \<noteq> [] \<and> CHR ''/'' \<notin> set n \<and> n \<noteq> ''.'' \<and> n \<noteq> ''..''"

definition components :: "string \<Rightarrow> string list option" where
  "components p = (let cs = split_sep p in if list_all plain_name cs then Some cs else None)"

definition resolve :: "string \<Rightarrow> string \<Rightarrow> string list option" where
  "resolve sp p =
     (if \<not> prefix sp p then None
      else let r = drop (length sp) p in
        if r = [] then Some []
        else if hd r = CHR ''/'' then components (tl r)
        else if sp \<noteq> [] \<and> last sp = CHR ''/'' then components r
        else None)"

definition relpath :: "string list \<Rightarrow> string list \<Rightarrow> string" where
  "relpath p start =
     (let i = length (longest_common_prefix p start);
          rel = replicate (length start - i) ''..'' @ drop i p
      in if rel = [] then ''.'' else join_sep rel)"

section \<open>Clock readings and random identifiers\<close>

record datetime =
  year :: nat
  month :: nat
  day :: nat
  hour :: nat
  minute :: nat
  second :: nat

definition digit_char :: "nat \<Rightarrow> char" where
  "digit_char d = ''0123456789abcdef'' ! (d mod 16)"

function str_nat :: "nat \<Rightarrow> string" where
  "str_nat n = (if n < 10 then [digit_char n] else str_nat (n div 10) @ [digit_char (n mod 10)])"
  by pat_completeness auto
termination
  by (relation "measure id") auto

definition pad2 :: "nat \<Rightarrow> string" where
  "pad2 n = (if n < 10 then CHR ''0'' # str_nat n else str_nat n)"

text \<open>\<^verbatim>\<open>strftime("%Y%m%d%H%M%S")\<close>: the year as the C library prints it, the other
  fields zero-padded to two digits.\<close>

definition strftime :: "datetime \<Rightarrow> string" where
  "strftime dt = str_nat (year dt) @ pad2 (month dt) @ pad2 (day dt)
                 @ pad2 (hour dt) @ pad2 (minute dt) @ pad2 (second dt)"

text \<open>The range of \<^verbatim>\<open>datetime.now()\<close> on a clock that counts from the epoch.\<close>

definition valid_now :: "datetime \<Rightarrow> bool" where
  "valid_now dt \<longleftrightarrow> 1970 \<le> year dt \<and> year dt \<le> 9999 \<and> 1 \<le> month dt \<and> month dt \<le> 12
     \<and> 1 \<le> day dt \<and> day dt \<le> 31 \<and> hour dt \<le> 23 \<and> minute dt \<le> 59 \<and> second dt \<le> 59"

text \<open>\<^verbatim>\<open>uuid.uuid4().hex\<close>: the 128-bit value as 32 lowercase hexadecimal digits.\<close>

definition uuid_hex :: "128 word \<Rightarrow> string" where
  "uuid_hex u = map (\<lambda>i. digit_char (unat u div 16 ^ (31 - i) mod 16)) [0..<32]"

definition is_digit :: "char \<Rightarrow> bool" where
  "is_digit c \<longleftrightarrow> c \<in> set ''0123456789''"

definition is_lower_hex :: "char \<Rightarrow> bool" where
  "is_lower_hex c \<longleftrightarrow> c \<in> set ''0123456789abcdef''"

section \<open>The storage root as a tree\<close>

text \<open>
  All state of the service is the file system below the storage root. A node is a regular
  file with its content or a directory with its modification time and its entries, in
  the order \<^verbatim>\<open>os.listdir\<close> and \<^verbatim>\<open>os.walk\<close> report them. An archive written
  by \<^verbatim>\<open>zipfile\<close> is a file whose content is the list of its entries (name and stored
  content). Symbolic links and special files are not modelled. The modification time of
  a directory is set when it is created and is an input of the retention sweep; the
  writers below do not advance it.
\<close>

datatype content = Text string | Zip "(string \<times> content) list"

datatype node = File content | Dir real "(string \<times> node) list"

datatype error =
    FileNotFoundError | FileExistsError | IsADirectoryError | NotADirectoryError
  | PermissionError | Unresolved

fun is_dir :: "node option \<Rightarrow> bool" where
  "is_dir (Some (Dir t es)) = True"
| "is_dir _ = False"

fun node_at :: "node \<Rightarrow> string list \<Rightarrow> node option" where
  "node_at n [] = Some n"
| "node_at (File c) (x # xs) = None"
| "node_at (Dir t es) (x # xs) = (case map_of es x of None \<Rightarrow> None | Some n \<Rightarrow> node_at n xs)"

definition os_path_exists :: "node \<Rightarrow> string list \<Rightarrow> bool" where
  "os_path_exists fs p \<longleftrightarrow> node_at fs p \<noteq> None"

definition os_path_isdir :: "node \<Rightarrow> string list \<Rightarrow> bool" where
  "os_path_isdir fs p \<longleftrightarrow> is_dir (node_at fs p)"

text \<open>\<^verbatim>\<open>os.makedirs(path, exist_ok=True)\<close>, stamping new directories with time \<open>t\<close>.\<close>

fun new_dirs :: "real \<Rightarrow> string list \<Rightarrow> node" where
  "new_dirs t [] = Dir t []"
| "new_dirs t (x # xs) = Dir t [(x, new_dirs t xs)]"

fun os_makedirs :: "real \<Rightarrow> node \<Rightarrow> string list \<Rightarrow> error + node" where
  "os_makedirs t (File c) [] = Inl FileExistsError"
| "os_makedirs t (File c) (x # xs) = Inl NotADirectoryError"
| "os_makedirs t (Dir m es) [] = Inr (Dir m es)"
| "os_makedirs t (Dir m es) (x # xs) =
     (case map_of es x of
        None \<Rightarrow> Inr (Dir m (es @ [(x, new_dirs t xs)]))
      | Some n \<Rightarrow>
          (case os_makedirs t n xs of
             Inl e \<Rightarrow> Inl e
           | Inr n' \<Rightarrow> Inr (Dir m (AList.update x n' es))))"

text \<open>\<^verbatim>\<open>with open(path, "w") as f: f.write(data)\<close>: creates or truncates the file.\<close>

fun write_file :: "node \<Rightarrow> string list \<Rightarrow> content \<Rightarrow> error + node" where
  "write_file n [] data = Inl IsADirectoryError"
| "write_file (File c) (x # xs) data = Inl NotADirectoryError"
| "write_file (Dir m es) [x] data =
     (if is_dir (map_of es x) then Inl IsADirectoryError
      else Inr (Dir m (AList.update x (File data) es)))"
| "write_file (Dir m es) (x # y # ys) data =
     (case map_of es x of
        None \<Rightarrow> Inl FileNotFoundError
      | Some n \<Rightarrow>
          (case write_file n (y # ys) data of
             Inl e \<Rightarrow> Inl e
           | Inr n' \<Rightarrow> Inr (Dir m (AList.update x n' es))))"

text \<open>\<^verbatim>\<open>os.walk\<close>, top-down: a directory's own triple first, then its subdirectories
  in order. The third component carries each regular file with the content a read of it
  returns. Paths are component lists below the storage root.\<close>

fun os_walk :: "string list \<Rightarrow> (string \<times> node) list
      \<Rightarrow> (string list \<times> string list \<times> (string \<times> content) list) list"
and walk_subdirs :: "string list \<Rightarrow> (string \<times> node) list
      \<Rightarrow> (string list \<times> string list \<times> (string \<times> content) list) list"
where
  "os_walk dp es =
     (dp, [n. (n, Dir t sub) \<leftarrow> es], [(n, c). (n, File c) \<leftarrow> es]) # walk_subdirs dp es"
| "walk_subdirs dp [] = []"
| "walk_subdirs dp ((n, File c) # es) = walk_subdirs dp es"
| "walk_subdirs dp ((n, Dir t sub) # es) = os_walk (dp @ [n]) sub @ walk_subdirs dp es"

text \<open>
  \<^verbatim>\<open>shutil.rmtree\<close>: entries are deleted in order, subdirectories recursively, then
  the directory itself; the first refusal of the operating system stops the deletion and
  is raised. \<open>locked p\<close> says that the operating system refuses to delete the node at
  path \<open>p\<close>. The result is what is left of the entries and whether all were deleted.
\<close>

fun rmtree_entries :: "(string list \<Rightarrow> bool) \<Rightarrow> string list \<Rightarrow> (string \<times> node) list
      \<Rightarrow> (string \<times> node) list \<times> bool" where
  "rmtree_entries locked p [] = ([], True)"
| "rmtree_entries locked p ((n, File c) # es) =
     (if locked (p @ [n]) then ((n, File c) # es, False) else rmtree_entries locked p es)"
| "rmtree_entries locked p ((n, Dir t sub) # es) =
     (case rmtree_entries locked (p @ [n]) sub of
        (sub', False) \<Rightarrow> ((n, Dir t sub') # es, False)
      | (sub', True) \<Rightarrow>
          (if locked (p @ [n]) then ((n, Dir t []) # es, False)
           else rmtree_entries locked p es))"

text \<open>\<^verbatim>\<open>shutil.rmtree\<close> and \<^verbatim>\<open>os.remove\<close> on an entry of the storage root.\<close>

definition shutil_rmtree :: "(string list \<Rightarrow> bool) \<Rightarrow> (string \<times> node) list \<Rightarrow> string
      \<Rightarrow> (string \<times> node) list \<times> (error + unit)" where
  "shutil_rmtree locked es name =
     (case map_of es name of
        None \<Rightarrow> (es, Inl FileNotFoundError)
      | Some (File c) \<Rightarrow> (es, Inl NotADirectoryError)
      | Some (Dir t sub) \<Rightarrow>
          (case rmtree_entries locked [name] sub of
             (sub', False) \<Rightarrow> (AList.update name (Dir t sub') es, Inl PermissionError)
           | (sub', True) \<Rightarrow>
               (if locked [name] then (AList.update name (Dir t []) es, Inl PermissionError)
                else (AList.delete name es, Inr ()))))"

definition os_remove :: "(string list \<Rightarrow> bool) \<Rightarrow> (string \<times> node) list \<Rightarrow> string
      \<Rightarrow> (string \<times> node) list \<times> (error + unit)" where
  "os_remove locked es name =
     (case map_of es name of
        None \<Rightarrow> (es, Inl FileNotFoundError)
      | Some (Dir t sub) \<Rightarrow> (es, Inl IsADirectoryError)
      | Some (File c) \<Rightarrow>
          (if locked [name] then (es, Inl PermissionError)
           else (AList.delete name es, Inr ())))"

section \<open>The conversion service\<close>

text \<open>
  Each operation of \<^verbatim>\<open>ConversionService\<close> takes the storage root \<open>fs\<close> and returns
  the storage root it leaves behind together with either the raised error (\<open>Inl\<close>) or
  the returned value (\<open>Inr\<close>). The storage path \<open>sp\<close>, the clock and the random
  identifier are parameters. The constructor has created the storage root, so \<open>fs\<close>
  is a directory and \<open>sp\<close> is not empty.
\<close>

definition makedirs_path :: "string \<Rightarrow> real \<Rightarrow> node \<Rightarrow> string \<Rightarrow> error + node" where
  "makedirs_path sp t fs path =
     (case resolve sp path of None \<Rightarrow> Inl Unresolved | Some p \<Rightarrow> os_makedirs t fs p)"

definition open_write :: "string \<Rightarrow> node \<Rightarrow> string \<Rightarrow> content \<Rightarrow> error + node" where
  "open_write sp fs path data =
     (case resolve sp path of None \<Rightarrow> Inl Unresolved | Some p \<Rightarrow> write_file fs p data)"

subsection \<open>Storage allocation\<close>

text \<open>The condition \<^verbatim>\<open>if user_id:\<close> on an optional string.\<close>

fun truthy :: "string option \<Rightarrow> bool" where
  "truthy None = False"
| "truthy (Some s) = (s \<noteq> [])"

definition conversion_dir_name :: "string option \<Rightarrow> datetime \<Rightarrow> 128 word \<Rightarrow> string" where
  "conversion_dir_name user_id now u =
     (let timestamp = strftime now in
      if truthy user_id then the user_id @ ''_'' @ timestamp @ ''_'' @ take 8 (uuid_hex u)
      else ''anonymous_'' @ timestamp @ ''_'' @ take 8 (uuid_hex u))"

definition create_conversion_dir ::
  "string \<Rightarrow> datetime \<Rightarrow> real \<Rightarrow> 128 word \<Rightarrow> node \<Rightarrow> string option \<Rightarrow> node \<times> (error + string)" where
  "create_conversion_dir sp now t u fs user_id =
     (let dir_name = conversion_dir_name user_id now u;
          conversion_dir = path_join sp dir_name
      in case makedirs_path sp t fs conversion_dir of
           Inl e \<Rightarrow> (fs, Inl e)
         | Inr fs' \<Rightarrow> (fs', Inr conversion_dir))"

subsection \<open>The stylesheet\<close>

definition base_css :: string where
  "base_css =
     ''\<newline>'' @
     ''/* Base styles for MD to HTML conversion */\<newline>'' @
     ''body {\<newline>'' @
     ''    font-family: -apple-system, BlinkMacSystemFont, \"Segoe UI\", Roboto, Helvetica, Arial, sans-serif;\<newline>'' @
     ''    line-height: 1.6;\<newline>'' @
     ''    color: #333;\<newline>'' @
     ''    max-width: 800px;\<newline>'' @
     ''    margin: 0 auto;\<newline>'' @
     ''    padding: 20px;\<newline>'' @
     ''}\<newline>'' @
     ''\<newline>'' @
     ''h1, h2, h3, h4, h5, h6 {\<newline>'' @
     ''    margin-top: 1.5em;\<newline>'' @
     ''    margin-bottom: 0.5em;\<newline>'' @
     ''    font-weight: 600;\<newline>'' @
     ''}\<newline>'' @
     ''\<newline>'' @
     ''h1 { font-size: 2em; }\<newline>'' @
     ''h2 { font-size: 1.75em; }\<newline>'' @
     ''h3 { font-size: 1.5em; }\<newline>'' @
     ''h4 { font-size: 1.25em; }\<newline>'' @
     ''h5 { font-size: 1em; }\<newline>'' @
     ''h6 { font-size: 0.85em; }\<newline>'' @
     ''\<newline>'' @
     ''p {\<newline>'' @
     ''    margin: 1em 0;\<newline>'' @
     ''}\<newline>'' @
     ''\<newline>'' @
     ''a {\<newline>'' @
     ''    color: #0366d6;\<newline>'' @
     ''    text-decoration: none;\<newline>'' @
     ''}\<newline>'' @
     ''\<newline>'' @
     ''a:hover {\<newline>'' @
     ''    text-decoration: underline;\<newline>'' @
     ''}\<newline>'' @
     ''\<newline>'' @
     ''code {\<newline>'' @
     ''    font-family: SFMono-Regular, Consolas, \"Liberation Mono\", Menlo, monospace;\<newline>'' @
     ''    background-color: #f6f8fa;\<newline>'' @
     ''    padding: 0.2em 0.4em;\<newline>'' @
     ''    border-radius: 3px;\<newline>'' @
     ''    font-size: 85%;\<newline>'' @
     ''}\<newline>'' @
     ''\<newline>'' @
     ''pre {\<newline>'' @
     ''    background-color: #f6f8fa;\<newline>'' @
     ''    border-radius: 3px;\<newline>'' @
     ''    padding: 16px;\<newline>'' @
     ''    overflow: auto;\<newline>'' @
     ''}\<newline>'' @
     ''\<newline>'' @
     ''pre code {\<newline>'' @
     ''    background-color: transparent;\<newline>'' @
     ''    padding: 0;\<newline>'' @
     ''}\<newline>'' @
     ''\<newline>'' @
     ''blockquote {\<newline>'' @
     ''    padding: 0 1em;\<newline>'' @
     ''    color: #6a737d;\<newline>'' @
     ''    border-left: 0.25em solid #dfe2e5;\<newline>'' @
     ''    margin: 1em 0;\<newline>'' @
     ''}\<newline>'' @
     ''\<newline>'' @
     ''ul, ol {\<newline>'' @
     ''    padding-left: 2em;\<newline>'' @
     ''    margin: 1em 0;\<newline>'' @
     ''}\<newline>'' @
     ''\<newline>'' @
     ''img {\<newline>'' @
     ''    max-width: 100%;\<newline>'' @
     ''    height: auto;\<newline>'' @
     ''}\<newline>'' @
     ''\<newline>'' @
     ''table {\<newline>'' @
     ''    border-collapse: collapse;\<newline>'' @
     ''    width: 100%;\<newline>'' @
     ''    margin: 1em 0;\<newline>'' @
     ''}\<newline>'' @
     ''\<newline>'' @
     ''table th, table td {\<newline>'' @
     ''    border: 1px solid #dfe2e5;\<newline>'' @
     ''    padding: 6px 13px;\<newline>'' @
     ''}\<newline>'' @
     ''\<newline>'' @
     ''table th {\<newline>'' @
     ''    background-color: #f6f8fa;\<newline>'' @
     ''    font-weight: 600;\<newline>'' @
     ''}\<newline>'' @
     ''\<newline>'' @
     ''hr {\<newline>'' @
     ''    height: 0.25em;\<newline>'' @
     ''    padding: 0;\<newline>'' @
     ''    margin: 24px 0;\<newline>'' @
     ''    background-color: #e1e4e8;\<newline>'' @
     ''    border: 0;\<newline>'' @
     ''}\<newline>'' @
     ''            ''"

definition create_base_css :: "string \<Rightarrow> real \<Rightarrow> node \<Rightarrow> string \<Rightarrow> node \<times> (error + string)" where
  "create_base_css sp t fs output_dir =
     (let css_dir = path_join output_dir ''css''
      in case makedirs_path sp t fs css_dir of
           Inl e \<Rightarrow> (fs, Inl e)
         | Inr fs1 \<Rightarrow>
             (let css_file = path_join css_dir ''style.css''
              in case open_write sp fs1 css_file (Text base_css) of
                   Inl e \<Rightarrow> (fs1, Inl e)
                 | Inr fs2 \<Rightarrow> (fs2, Inr css_file)))"

subsection \<open>Rendering documents\<close>

text \<open>The rendering library \<^verbatim>\<open>markdown.markdown\<close> with its four extensions is a
  parameter \<open>markdown\<close>, a function from the markdown text to the HTML fragment.\<close>

definition normalize_filename :: "string \<Rightarrow> string" where
  "normalize_filename filename =
     (if \<not> endswith filename ''.md'' then filename @ ''.md'' else filename)"

definition html_document :: "string \<Rightarrow> string \<Rightarrow> string" where
  "html_document html_filename html_content =
     ''<!DOCTYPE html>\<newline>'' @
     ''<html lang=\"en\">\<newline>'' @
     ''<head>\<newline>'' @
     ''    <meta charset=\"UTF-8\">\<newline>'' @
     ''    <meta name=\"viewport\" content=\"width=device-width, initial-scale=1.0\">\<newline>'' @
     ''    <title>'' @ html_filename @ ''</title>\<newline>'' @
     ''    <link rel=\"stylesheet\" href=\"css/style.css\">\<newline>'' @
     ''</head>\<newline>'' @
     ''<body>\<newline>'' @
     ''    '' @ html_content @ ''\<newline>'' @
     ''</body>\<newline>'' @
     ''</html>''"

text \<open>One pass of the loop over \<^verbatim>\<open>content.items()\<close>.\<close>

fun convert_document ::
  "(string \<Rightarrow> string) \<Rightarrow> string \<Rightarrow> string \<Rightarrow> node \<Rightarrow> string \<times> string \<Rightarrow> node \<times> (error + unit)" where
  "convert_document markdown sp conversion_dir fs (key, md_content) =
       (let filename = normalize_filename key;
            md_file_path = path_join conversion_dir filename
        in case open_write sp fs md_file_path (Text md_content) of
             Inl e \<Rightarrow> (fs, Inl e)
           | Inr fs1 \<Rightarrow>
               (let html_content = markdown md_content;
                    html_filename = str_replace ''.md'' ''.html'' filename;
                    html_file_path = path_join conversion_dir html_filename
                in case open_write sp fs1 html_file_path
                          (Text (html_document html_filename html_content)) of
                     Inl e \<Rightarrow> (fs1, Inl e)
                   | Inr fs2 \<Rightarrow> (fs2, Inr ())))"

fun convert_documents ::
  "(string \<Rightarrow> string) \<Rightarrow> string \<Rightarrow> string \<Rightarrow> node \<Rightarrow> (string \<times> string) list \<Rightarrow> node \<times> (error + unit)" where
  "convert_documents markdown sp conversion_dir fs [] = (fs, Inr ())"
| "convert_documents markdown sp conversion_dir fs (item # items) =
     (case convert_document markdown sp conversion_dir fs item of
        (fs1, Inl e) \<Rightarrow> (fs1, Inl e)
      | (fs1, Inr u) \<Rightarrow> convert_documents markdown sp conversion_dir fs1 items)"

text \<open>The dictionary \<open>content\<close> is the list of its items in iteration order.\<close>

definition convert_markdown_to_html ::
  "(string \<Rightarrow> string) \<Rightarrow> string \<Rightarrow> datetime \<Rightarrow> real \<Rightarrow> 128 word \<Rightarrow> node
     \<Rightarrow> (string \<times> string) list \<Rightarrow> string option \<Rightarrow> node \<times> (error + string \<times> string)" where
  "convert_markdown_to_html markdown sp now t u fs content user_id =
     (case create_conversion_dir sp now t u fs user_id of
        (fs1, Inl e) \<Rightarrow> (fs1, Inl e)
      | (fs1, Inr conversion_dir) \<Rightarrow>
          (let conversion_id = basename conversion_dir
           in case create_base_css sp t fs1 conversion_dir of
                (fs2, Inl e) \<Rightarrow> (fs2, Inl e)
              | (fs2, Inr css_file) \<Rightarrow>
                  (case convert_documents markdown sp conversion_dir fs2 content of
                     (fs3, Inl e) \<Rightarrow> (fs3, Inl e)
                   | (fs3, Inr u) \<Rightarrow> (fs3, Inr (conversion_id, conversion_dir)))))"

subsection \<open>Archiving\<close>

definition zip_entries :: "string list
     \<Rightarrow> (string list \<times> string list \<times> (string \<times> content) list) list \<Rightarrow> (string \<times> content) list" where
  "zip_entries conversion_path walk =
     concat (map (\<lambda>(dp, dirs, files).
        map (\<lambda>(file, data). (relpath (dp @ [file]) conversion_path, data)) files) walk)"

definition create_zip :: "string \<Rightarrow> node \<Rightarrow> string \<Rightarrow> node \<times> (error + string)" where
  "create_zip sp fs conversion_id =
     (let conversion_path = path_join sp conversion_id
      in case resolve sp conversion_path of
           None \<Rightarrow> (fs, Inl Unresolved)
         | Some cp \<Rightarrow>
             if \<not> os_path_exists fs cp then (fs, Inl FileNotFoundError)
             else
               (let zip_path = conversion_path @ ''.zip''
                in case open_write sp fs zip_path (Zip []) of
                     Inl e \<Rightarrow> (fs, Inl e)
                   | Inr fs1 \<Rightarrow>
                       (let walk = (case node_at fs1 cp of
                                      Some (Dir t es) \<Rightarrow> os_walk cp es
                                    | _ \<Rightarrow> [])
                        in case open_write sp fs1 zip_path (Zip (zip_entries cp walk)) of
                             Inl e \<Rightarrow> (fs1, Inl e)
                           | Inr fs2 \<Rightarrow> (fs2, Inr zip_path))))"

subsection \<open>Preview reference\<close>

definition get_preview_url :: "string \<Rightarrow> string" where
  "get_preview_url conversion_id = ''/preview/'' @ conversion_id"

subsection \<open>Retention sweep\<close>

text \<open>
  The loop over \<^verbatim>\<open>os.listdir(settings.STORAGE_PATH)\<close>. An item is an entry name of
  the storage root, so the path \<^verbatim>\<open>STORAGE_PATH/item\<close> is that entry, and
  \<^verbatim>\<open>STORAGE_PATH/item.zip\<close> the entry of that name.
\<close>

fun sweep :: "(string list \<Rightarrow> bool) \<Rightarrow> real \<Rightarrow> string list \<Rightarrow> (string \<times> node) list \<Rightarrow> string list
     \<Rightarrow> (string \<times> node) list \<times> (error + string list)" where
  "sweep locked cutoff_time [] es removed_dirs = (es, Inr removed_dirs)"
| "sweep locked cutoff_time (item # items) es removed_dirs =
     (case map_of es item of
        Some (Dir mod_time sub) \<Rightarrow>
          if mod_time < cutoff_time then
            (case shutil_rmtree locked es item of
               (es1, Inl e) \<Rightarrow> (es1, Inl e)
             | (es1, Inr u) \<Rightarrow>
                 if map_of es1 (item @ ''.zip'') \<noteq> None then
                   (case os_remove locked es1 (item @ ''.zip'') of
                      (es2, Inl e) \<Rightarrow> (es2, Inl e)
                    | (es2, Inr u) \<Rightarrow> sweep locked cutoff_time items es2 (removed_dirs @ [item]))
                 else sweep locked cutoff_time items es1 (removed_dirs @ [item]))
          else sweep locked cutoff_time items es removed_dirs
      | _ \<Rightarrow> sweep locked cutoff_time items es removed_dirs)"

definition cleanup_old_conversions ::
  "(string list \<Rightarrow> bool) \<Rightarrow> real \<Rightarrow> node \<Rightarrow> int \<Rightarrow> node \<times> (error + string list)" where
  "cleanup_old_conversions locked now fs days_to_keep =
     (let cutoff_time = now - real_of_int (days_to_keep * 24 * 60 * 60)
      in case fs of
           File c \<Rightarrow> (fs, Inl NotADirectoryError)
         | Dir m es \<Rightarrow>
             (case sweep locked cutoff_time (map fst es) es [] of
                (es', r) \<Rightarrow> (Dir m es', r)))"

text \<open>The clock reading 2024-01-01T00:00:00.\<close>

definition new_year_2024 :: datetime where
  "new_year_2024 = \<lparr>year = 2024, month = 1, day = 1, hour = 0, minute = 0, second = 0\<rparr>"

text \<open>A stand-in for the rendering library and a storage root with one conversion, for
  evaluating the service on concrete inputs.\<close>

definition render_stub :: "string \<Rightarrow> string" where
  "render_stub s = ''<p>'' @ s @ ''</p>''"

definition one_conversion :: node where
  "one_conversion = Dir 0 [(''c1'', Dir 5 [(''css'', Dir 5 [(''style.css'', File (Text base_css))])])]"

text \<open>The identity hints without a path separator: the tokens the allocator takes as the first
  component of a directory name.\<close>

fun hint_ok :: "string option \<Rightarrow> bool" where
  "hint_ok None = True"
| "hint_ok (Some uid) = (CHR ''/'' \<notin> set uid)"

text \<open>A storage root holding one conversion and its archive.\<close>

definition archived_storage :: node where
  "archived_storage =
     Dir 0 [(''c1'', Dir 5 [(''notes.md'', File (Text ''Hi''))]),
            (''c1.zip'', File (Zip [(''notes.md'', Text ''Hi'')]))]"

text \<open>
  The expected outcome of a retention sweep with cutoff \<open>c\<close>, written from the
  specification: the names of the directories modified strictly before the cutoff, and
  the entries that are neither such a directory nor the \<^verbatim>\<open>.zip\<close> sibling of one.
\<close>

fun stale_node :: "real \<Rightarrow> node option \<Rightarrow> bool" where
  "stale_node c (Some (Dir t sub)) = (t < c)"
| "stale_node c _ = False"

definition expected_removed :: "real \<Rightarrow> (string \<times> node) list \<Rightarrow> string list" where
  "expected_removed c es = [n \<leftarrow> map fst es. stale_node c (map_of es n)]"

definition expected_kept :: "real \<Rightarrow> (string \<times> node) list \<Rightarrow> (string \<times> node) list" where
  "expected_kept c es =
     [(n, x) \<leftarrow> es. n \<notin> set (expected_removed c es)
                   \<and> n \<notin> set (map (\<lambda>r. r @ ''.zip'') (expected_removed c es))]"

text \<open>A storage root with two stale conversions, one of them archived.\<close>

definition swept_entries :: "(string \<times> node) list" where
  "swept_entries =
     [(''b'', Dir 1000000 []),
      (''a'', Dir 1 [(''notes.md'', File (Text ''Hi''))]),
      (''a.zip'', File (Zip [(''notes.md'', Text ''Hi'')])),
      (''c'', Dir 2 []),
      (''d'', File (Text []))]"

text \<open>
  The regular files of a directory tree, each as its list of components relative to the
  root of the tree, written from the specification. \<open>file_names\<close>, \<open>subdir_files\<close>
  and \<open>walk_paths\<close> split this list the way \<^verbatim>\<open>os.walk\<close> visits it.
\<close>

fun regular_files :: "(string \<times> node) list \<Rightarrow> string list list" where
  "regular_files [] = []"
| "regular_files ((n, File c) # es) = [n] # regular_files es"
| "regular_files ((n, Dir t sub) # es) = map ((#) n) (regular_files sub) @ regular_files es"

fun file_names :: "(string \<times> node) list \<Rightarrow> string list" where
  "file_names [] = []"
| "file_names ((n, File c) # es) = n # file_names es"
| "file_names ((n, Dir t sub) # es) = file_names es"

fun subdir_files :: "(string \<times> node) list \<Rightarrow> string list list" where
  "subdir_files [] = []"
| "subdir_files ((n, File c) # es) = subdir_files es"
| "subdir_files ((n, Dir t sub) # es) = map ((#) n) (regular_files sub) @ subdir_files es"

definition walk_paths ::
  "(string list \<times> string list \<times> (string \<times> content) list) list \<Rightarrow> string list list" where
  "walk_paths walk = concat (map (\<lambda>(dp, dirs, files). map (\<lambda>(file, data). dp @ [file]) files) walk)"

text \<open>A storage root with one conversion holding the files \<^verbatim>\<open>a\<close> and \<^verbatim>\<open>b/c\<close>.\<close>

definition tree_storage :: node where
  "tree_storage =
     Dir 0 [(''c1'', Dir 5 [(''a'', File (Text ''A'')),
                            (''b'', Dir 5 [(''c'', File (Text ''C''))])])]"

text \<open>
  The documents of a batch as the specification names them: the base name of a key is
  the key without a final \<^verbatim>\<open>.md\<close>; a document key is a plain name whose base name
  holds no \<^verbatim>\<open>.md\<close>; each entry gives a \<^verbatim>\<open>.md\<close> and a \<^verbatim>\<open>.html\<close> file of that
  base name. \<open>os_listdir\<close> is \<^verbatim>\<open>os.listdir\<close> on a path below the storage root.
\<close>

definition stem :: "string \<Rightarrow> string" where
  "stem key = (if endswith key ''.md'' then take (length key - 3) key else key)"

definition document_key :: "string \<Rightarrow> bool" where
  "document_key key \<longleftrightarrow> CHR ''/'' \<notin> set key \<and> \<not> sublist ''.md'' (stem key)"

fun expected_files :: "(string \<Rightarrow> string) \<Rightarrow> string \<times> string \<Rightarrow> (string \<times> node) list" where
  "expected_files markdown (key, md_content) =
     [(stem key @ ''.md'', File (Text md_content)),
      (stem key @ ''.html'',
       File (Text (html_document (stem key @ ''.html'') (markdown md_content))))]"

definition os_listdir :: "node \<Rightarrow> string list \<Rightarrow> string list" where
  "os_listdir fs p = (case node_at fs p of Some (Dir t es) \<Rightarrow> map fst es | _ \<Rightarrow> [])"

text \<open>A batch of two documents.\<close>

definition two_documents :: "(string \<times> string) list" where
  "two_documents = [(''notes'', ''# Hi''), (''readme.md'', ''text'')]"

section \<open>Properties of the service\<close>

text \<open>The recursive equations of the two string functions are unfolded by hand.\<close>

declare str_replace.simps [simp del]

declare str_nat.simps [simp del]

subsection \<open>Preview reference\<close>

text \<open>
  Claim C10. \<^verbatim>\<open>get_preview_url\<close> returns exactly the string \<^verbatim>\<open>/preview/<conversionID>\<close> for
  every conversion ID. The function takes no storage root, so it reads no file system
  state and checks no existence; it is total and returns a string, so it never fails.
\<close>

theorem get_preview_url_exact:
  "get_preview_url conversion_id = ''/preview/'' @ conversion_id
   \<and> take 9 (get_preview_url conversion_id) = ''/preview/''
   \<and> drop 9 (get_preview_url conversion_id) = conversion_id"
  by (simp add: get_preview_url_def)

subsection \<open>Conversion identifiers\<close>

lemma str_nat_small: "n < 10 \<Longrightarrow> str_nat n = [digit_char n]"
  by (subst str_nat.simps) simp

lemma str_nat_step: "10 \<le> n \<Longrightarrow> str_nat n = str_nat (n div 10) @ [digit_char (n mod 10)]"
  by (subst str_nat.simps) simp

lemma is_digit_digit_char: "d < 10 \<Longrightarrow> is_digit (digit_char d)"
proof -
  assume "d < 10"
  then have "d \<in> {0, 1, 2, 3, 4, 5, 6, 7, 8, 9}" by auto
  then show ?thesis
    by (auto simp: is_digit_def digit_char_def)
qed

lemma is_lower_hex_digit_char: "is_lower_hex (digit_char d)"
  unfolding is_lower_hex_def digit_char_def by (rule nth_mem) simp

lemma str_nat_digits2:
  assumes "10 \<le> n" "n < 100"
  shows "length (str_nat n) = 2 \<and> list_all is_digit (str_nat n)"
proof -
  have "n div 10 < 10" using assms by simp
  then show ?thesis using assms
    by (simp add: str_nat_step str_nat_small is_digit_digit_char)
qed

lemma str_nat_digits3:
  assumes "100 \<le> n" "n < 1000"
  shows "length (str_nat n) = 3 \<and> list_all is_digit (str_nat n)"
proof -
  have "10 \<le> n div 10" "n div 10 < 100" using assms by simp_all
  from str_nat_digits2[OF this] show ?thesis using assms
    by (simp add: str_nat_step is_digit_digit_char)
qed

lemma str_nat_digits4:
  assumes "1000 \<le> n" "n < 10000"
  shows "length (str_nat n) = 4 \<and> list_all is_digit (str_nat n)"
proof -
  have "100 \<le> n div 10" "n div 10 < 1000" using assms by simp_all
  from str_nat_digits3[OF this] show ?thesis using assms
    by (simp add: str_nat_step is_digit_digit_char)
qed

lemma pad2_digits:
  assumes "n < 100"
  shows "length (pad2 n) = 2 \<and> list_all is_digit (pad2 n)"
proof (cases "n < 10")
  case True
  have "is_digit CHR ''0''" by (simp add: is_digit_def)
  with True show ?thesis
    by (simp add: pad2_def str_nat_small is_digit_digit_char)
next
  case False
  then show ?thesis using assms str_nat_digits2[of n]
    by (simp add: pad2_def)
qed

lemma strftime_digits:
  assumes "valid_now now"
  shows "length (strftime now) = 14 \<and> list_all is_digit (strftime now)"
proof -
  have y: "1000 \<le> year now" "year now < 10000"
    and m: "month now < 100" and d: "day now < 100" and h: "hour now < 100"
    and mi: "minute now < 100" and s: "second now < 100"
    using assms by (simp_all add: valid_now_def)
  show ?thesis
    using str_nat_digits4[OF y] pad2_digits[OF m] pad2_digits[OF d] pad2_digits[OF h]
      pad2_digits[OF mi] pad2_digits[OF s]
    by (simp add: strftime_def)
qed

lemma uuid_suffix_hex:
  "length (take 8 (uuid_hex u)) = 8 \<and> list_all is_lower_hex (take 8 (uuid_hex u))"
proof -
  have "list_all is_lower_hex (uuid_hex u)"
    by (simp add: uuid_hex_def list_all_iff is_lower_hex_digit_char)
  then have "list_all is_lower_hex (take 8 (uuid_hex u))"
    by (auto simp: list_all_iff dest: in_set_takeD)
  moreover have "length (take 8 (uuid_hex u)) = 8"
    by (simp add: uuid_hex_def)
  ultimately show ?thesis by simp
qed


lemma strftime_new_year_2024: "strftime new_year_2024 = ''20240101000000''"
  by (simp add: strftime_def new_year_2024_def pad2_def str_nat_small str_nat_step digit_char_def)

text \<open>
  Claim C6 (as amended). For every allocation at a clock reading \<open>now\<close> the generated
  name is \<^verbatim>\<open><identity>_<YYYYMMDDHHMMSS>_<8 hex>\<close>: the identity hint when one is
  supplied and is not the empty string, the token \<^verbatim>\<open>anonymous\<close> otherwise; then the
  timestamp of 14 decimal digits; then the first 8 lowercase hexadecimal digits of the
  random identifier; joined by underscores.
\<close>

theorem conversion_id_format:
  assumes "valid_now now"
  shows "conversion_dir_name user_id now u =
           (if truthy user_id then the user_id else ''anonymous'')
             @ ''_'' @ strftime now @ ''_'' @ take 8 (uuid_hex u)
         \<and> length (strftime now) = 14 \<and> list_all is_digit (strftime now)
         \<and> length (take 8 (uuid_hex u)) = 8 \<and> list_all is_lower_hex (take 8 (uuid_hex u))"
  using strftime_digits[OF assms] uuid_suffix_hex[of u]
  by (simp add: conversion_dir_name_def)

text \<open>The example of the specification: hint \<^verbatim>\<open>u1\<close> at 2024-01-01T00:00:00.\<close>

theorem conversion_id_format_witness:
  "valid_now new_year_2024
   \<and> conversion_dir_name (Some ''u1'') new_year_2024 0xdeadbeef0123456789abcdef01234567
       = ''u1_20240101000000_deadbeef''
   \<and> list_all is_lower_hex ''deadbeef''"
proof -
  have v: "valid_now new_year_2024"
    by (simp add: valid_now_def new_year_2024_def)
  have h: "take 8 (uuid_hex 0xdeadbeef0123456789abcdef01234567) = ''deadbeef''"
    by (simp add: uuid_hex_def digit_char_def upt_conv_Cons)
  show ?thesis
    using v conversion_id_format[OF v, of "Some ''u1''" "0xdeadbeef0123456789abcdef01234567"]
    by (simp add: h strftime_new_year_2024)
qed

text \<open>
  The claim as stated takes the supplied hint in every case. The code tests the hint with
  \<^verbatim>\<open>if user_id:\<close>, so the supplied hint \<^verbatim>\<open>""\<close> gives the anonymous token.
\<close>

theorem empty_hint_counterexample:
  "conversion_dir_name (Some '''') new_year_2024 0
     = ''anonymous_20240101000000_00000000''
   \<and> conversion_dir_name (Some '''') new_year_2024 0
     \<noteq> '''' @ ''_'' @ strftime new_year_2024 @ ''_'' @ take 8 (uuid_hex 0)"
proof -
  have h: "take 8 (uuid_hex 0) = ''00000000''"
    by (simp add: uuid_hex_def digit_char_def upt_conv_Cons)
  show ?thesis
    by (simp add: conversion_dir_name_def h strftime_new_year_2024)
qed

subsection \<open>Path names below the storage root\<close>

lemma split_sep_plain: "CHR ''/'' \<notin> set s \<Longrightarrow> split_sep s = [s]"
  by (induction s) auto

lemma split_sep_append:
  "CHR ''/'' \<notin> set d \<Longrightarrow> split_sep (d @ CHR ''/'' # r) = d # split_sep r"
  by (induction d) auto

lemma components_plain: "plain_name n \<Longrightarrow> components n = Some [n]"
  by (simp add: components_def plain_name_def split_sep_plain)

lemma components_nested:
  "plain_name d \<Longrightarrow> components r = Some cs \<Longrightarrow> components (d @ CHR ''/'' # r) = Some (d # cs)"
  by (auto simp: components_def Let_def plain_name_def split_sep_append split: if_splits)

lemma resolve_under:
  assumes "sp \<noteq> []" "d \<noteq> []" "hd d \<noteq> CHR ''/''"
  shows "resolve sp (path_join sp d @ r) = components (d @ r)"
proof (cases "last sp = CHR ''/''")
  case True
  then show ?thesis using assms
    by (cases d) (auto simp: resolve_def path_join_def Let_def)
next
  case False
  then show ?thesis using assms
    by (cases d) (auto simp: resolve_def path_join_def Let_def)
qed

lemma plain_name_ends:
  assumes "plain_name d"
  shows "d \<noteq> []" "hd d \<noteq> CHR ''/''" "last d \<noteq> CHR ''/''"
proof -
  show ne: "d \<noteq> []" using assms by (simp add: plain_name_def)
  have "CHR ''/'' \<notin> set d" using assms by (simp add: plain_name_def)
  then show "hd d \<noteq> CHR ''/''" "last d \<noteq> CHR ''/''"
    using ne by (metis hd_in_set, metis last_in_set)
qed

lemma path_join_last:
  assumes "b \<noteq> []" "last b \<noteq> CHR ''/''"
  shows "path_join a b \<noteq> [] \<and> last (path_join a b) \<noteq> CHR ''/''"
  using assms by (auto simp: path_join_def)

lemma path_join_below:
  assumes "a \<noteq> []" "last a \<noteq> CHR ''/''" "f \<noteq> []" "hd f \<noteq> CHR ''/''"
  shows "path_join a f = a @ ''/'' @ f"
  using assms by (simp add: path_join_def)

lemma resolve_dir:
  assumes "sp \<noteq> []" "plain_name d"
  shows "resolve sp (path_join sp d) = Some [d]"
  using resolve_under[of sp d "[]"] assms plain_name_ends[OF assms(2)]
  by (simp add: components_plain)

lemma resolve_dir_entry:
  assumes "sp \<noteq> []" "plain_name d" "plain_name f"
  shows "resolve sp (path_join (path_join sp d) f) = Some [d, f]"
proof -
  have "path_join (path_join sp d) f = path_join sp d @ ''/'' @ f"
    using path_join_last[of d sp] plain_name_ends[OF assms(2)] plain_name_ends[OF assms(3)]
    by (intro path_join_below) simp_all
  then show ?thesis
    using resolve_under[of sp d "''/'' @ f"] assms plain_name_ends[OF assms(2)]
    by (simp add: components_nested components_plain)
qed

lemma resolve_dir_entry2:
  assumes "sp \<noteq> []" "plain_name d" "plain_name f" "plain_name g"
  shows "resolve sp (path_join (path_join (path_join sp d) f) g) = Some [d, f, g]"
proof -
  have 1: "path_join (path_join sp d) f = path_join sp d @ ''/'' @ f"
    using path_join_last[of d sp] plain_name_ends[OF assms(2)] plain_name_ends[OF assms(3)]
    by (intro path_join_below) simp_all
  have 2: "path_join (path_join sp d @ CHR ''/'' # f) g = (path_join sp d @ CHR ''/'' # f) @ ''/'' @ g"
    using plain_name_ends[OF assms(3)] plain_name_ends[OF assms(4)]
    by (intro path_join_below) simp_all
  show ?thesis
    using resolve_under[of sp d "''/'' @ f @ ''/'' @ g"] assms plain_name_ends[OF assms(2)]
    by (simp add: 1 2 components_nested components_plain)
qed

lemma resolve_sibling:
  assumes "sp \<noteq> []" "plain_name d"
  shows "resolve sp (path_join sp d @ ''.zip'') = Some [d @ ''.zip'']"
proof -
  have "plain_name (d @ ''.zip'')"
    using assms(2) by (auto simp: plain_name_def append_eq_Cons_conv)
  then show ?thesis
    using resolve_under[of sp d "''.zip''"] assms plain_name_ends[OF assms(2)]
    by (simp add: components_plain)
qed

subsection \<open>Replacing the markdown extension\<close>

lemma replace_md_Nil: "str_replace ''.md'' ''.html'' [] = []"
  by (subst str_replace.simps) simp

lemma replace_md_hit:
  "prefix ''.md'' s \<Longrightarrow>
     str_replace ''.md'' ''.html'' s = ''.html'' @ str_replace ''.md'' ''.html'' (drop 3 s)"
  by (subst str_replace.simps) (auto simp: numeral_3_eq_3)

lemma replace_md_miss:
  assumes "\<not> prefix ''.md'' (c # cs)"
  shows "str_replace ''.md'' ''.html'' (c # cs) = c # str_replace ''.md'' ''.html'' cs"
proof -
  have "str_replace ''.md'' ''.html'' (c # cs) =
          (if prefix ''.md'' (c # cs)
           then ''.html'' @ str_replace ''.md'' ''.html'' (drop (length ''.md'') (c # cs))
           else c # str_replace ''.md'' ''.html'' cs)"
    by (subst str_replace.simps) simp
  then show ?thesis by (simp only: assms if_False)
qed

lemma endswith_suffix: "endswith s x \<longleftrightarrow> suffix x s"
proof
  assume "endswith s x"
  then have "s = take (length s - length x) s @ x"
    by (metis append_take_drop_id endswith_def)
  then show "suffix x s" by (metis suffixI)
next
  assume "suffix x s"
  then show "endswith s x" by (auto simp: suffix_def endswith_def)
qed

lemma replace_md_length: "length s \<le> length (str_replace ''.md'' ''.html'' s)"
proof (induction s rule: length_induct)
  case (1 s)
  show ?case
  proof (cases "prefix ''.md'' s")
    case True
    then have "3 \<le> length s" by (auto simp: prefix_def)
    moreover have "length (drop 3 s) \<le> length (str_replace ''.md'' ''.html'' (drop 3 s))"
      using 1 True by (auto simp: prefix_def)
    ultimately show ?thesis using replace_md_hit[OF True] by simp
  next
    case False
    show ?thesis
    proof (cases s)
      case Nil
      then show ?thesis by (simp add: replace_md_Nil)
    next
      case (Cons c cs)
      then show ?thesis using 1 replace_md_miss[of c cs] False by simp
    qed
  qed
qed

lemma replace_md_set: "set (str_replace ''.md'' ''.html'' s) \<subseteq> set s \<union> set ''.html''"
proof (induction s rule: length_induct)
  case (1 s)
  show ?case
  proof (cases "prefix ''.md'' s")
    case True
    then have "3 \<le> length s" by (auto simp: prefix_def)
    then have "set (str_replace ''.md'' ''.html'' (drop 3 s)) \<subseteq> set (drop 3 s) \<union> set ''.html''"
      using 1 by simp
    moreover have "set (drop 3 s) \<subseteq> set s" by (rule set_drop_subset)
    ultimately show ?thesis using replace_md_hit[OF True] by auto
  next
    case False
    show ?thesis
    proof (cases s)
      case Nil
      then show ?thesis by (simp add: replace_md_Nil)
    next
      case (Cons c cs)
      then show ?thesis using 1 replace_md_miss[of c cs] False by auto
    qed
  qed
qed

lemma endswith_md_tail:
  assumes "endswith (c # cs) ''.md''" "\<not> prefix ''.md'' (c # cs)"
  shows "endswith cs ''.md''"
proof -
  have "suffix ''.md'' (c # cs)" using assms(1) by (simp only: endswith_suffix)
  then have "''.md'' = c # cs \<or> suffix ''.md'' cs" by (simp only: suffix_Cons)
  moreover have "''.md'' \<noteq> c # cs" using assms(2) by auto
  ultimately have "suffix ''.md'' cs" by blast
  then show ?thesis by (simp only: endswith_suffix)
qed

lemma replace_md_grows:
  "endswith s ''.md'' \<Longrightarrow> length s < length (str_replace ''.md'' ''.html'' s)"
proof (induction s)
  case Nil
  then show ?case by (simp add: endswith_def)
next
  case (Cons c cs)
  show ?case
  proof (cases "prefix ''.md'' (c # cs)")
    case True
    then have h: "str_replace ''.md'' ''.html'' (c # cs)
                    = ''.html'' @ str_replace ''.md'' ''.html'' (drop 3 (c # cs))"
      by (rule replace_md_hit)
    from True have "3 \<le> length (c # cs)" by (auto simp: prefix_def)
    then show ?thesis
      using replace_md_length[of "drop 3 (c # cs)"] by (simp add: h)
  next
    case False
    then show ?thesis
      using Cons endswith_md_tail[of c cs] replace_md_miss[OF False] by simp
  qed
qed

lemma normalize_filename_endswith: "endswith (normalize_filename key) ''.md''"
  by (simp add: normalize_filename_def endswith_def)

lemma plain_normalize_filename:
  assumes "CHR ''/'' \<notin> set key"
  shows "plain_name (normalize_filename key)"
proof -
  have "3 \<le> length (normalize_filename key)"
    using normalize_filename_endswith[of key] by (simp add: endswith_def)
  moreover have "CHR ''/'' \<notin> set (normalize_filename key)"
    using assms by (simp add: normalize_filename_def)
  ultimately show ?thesis by (auto simp: plain_name_def)
qed

lemma plain_html_filename:
  assumes "CHR ''/'' \<notin> set key"
  shows "plain_name (str_replace ''.md'' ''.html'' (normalize_filename key))"
proof -
  let ?f = "normalize_filename key"
  have "3 \<le> length ?f"
    using normalize_filename_endswith[of key] by (simp add: endswith_def)
  then have "3 \<le> length (str_replace ''.md'' ''.html'' ?f)"
    using replace_md_length[of ?f] by simp
  moreover have "CHR ''/'' \<notin> set (str_replace ''.md'' ''.html'' ?f)"
    using replace_md_set[of ?f] plain_normalize_filename[OF assms]
    by (auto simp: plain_name_def)
  ultimately show ?thesis by (auto simp: plain_name_def)
qed

lemma html_filename_differs:
  "str_replace ''.md'' ''.html'' (normalize_filename key) \<noteq> normalize_filename key"
  using replace_md_grows[OF normalize_filename_endswith, of key] by auto

subsection \<open>Rendering one document\<close>

lemma node_at_entry: "node_at (Dir m es) [x] = map_of es x"
  by (cases "map_of es x") simp_all

lemma node_at_entry2:
  "map_of es d = Some (Dir t des) \<Longrightarrow> node_at (Dir m es) [d, x] = map_of des x"
  by (cases "map_of des x") simp_all

lemma isdir_entry2:
  "map_of es d = Some (Dir t des) \<Longrightarrow> os_path_isdir (Dir m es) [d, x] = is_dir (map_of des x)"
  by (simp only: os_path_isdir_def node_at_entry2)

lemma fs_is_dir:
  assumes "node_at fs [d] = Some n"
  obtains m es where "fs = Dir m es" "map_of es d = Some n"
  using assms by (cases fs) (auto split: option.splits)

lemma write_file_entry:
  assumes "map_of es d = Some (Dir t des)" "\<not> is_dir (map_of des f)"
  shows "write_file (Dir m es) [d, f] data
           = Inr (Dir m (AList.update d (Dir t (AList.update f (File data) des)) es))"
  using assms by simp

lemma is_dir_update_file:
  "is_dir (map_of (AList.update f (File data) des) g) \<longleftrightarrow> g \<noteq> f \<and> is_dir (map_of des g)"
  by (simp add: update_conv')

lemma convert_document_plain:
  assumes sp: "sp \<noteq> []" and d: "plain_name d" and key: "CHR ''/'' \<notin> set key"
    and dir: "map_of es d = Some (Dir t des)"
    and nd1: "\<not> is_dir (map_of des (normalize_filename key))"
    and nd2: "\<not> is_dir (map_of des (str_replace ''.md'' ''.html'' (normalize_filename key)))"
  shows "convert_document markdown sp (path_join sp d) (Dir m es) (key, md_content) =
           (Dir m (AList.update d
              (Dir t (AList.update (str_replace ''.md'' ''.html'' (normalize_filename key))
                 (File (Text (html_document (str_replace ''.md'' ''.html'' (normalize_filename key))
                    (markdown md_content))))
                 (AList.update (normalize_filename key) (File (Text md_content)) des))) es),
            Inr ())"
proof -
  let ?fn = "normalize_filename key"
  let ?html = "str_replace ''.md'' ''.html'' ?fn"
  let ?des1 = "AList.update ?fn (File (Text md_content)) des"
  let ?es1 = "AList.update d (Dir t ?des1) es"
  have r1: "resolve sp (path_join (path_join sp d) ?fn) = Some [d, ?fn]"
    by (rule resolve_dir_entry[OF sp d plain_normalize_filename[OF key]])
  have r2: "resolve sp (path_join (path_join sp d) ?html) = Some [d, ?html]"
    by (rule resolve_dir_entry[OF sp d plain_html_filename[OF key]])
  have w1: "open_write sp (Dir m es) (path_join (path_join sp d) ?fn) (Text md_content)
              = Inr (Dir m ?es1)"
    using write_file_entry[OF dir nd1] by (simp add: open_write_def r1)
  have dir1: "map_of ?es1 d = Some (Dir t ?des1)"
    by (simp add: update_conv')
  have nd: "\<not> is_dir (map_of ?des1 ?html)"
    using nd2 by (simp add: is_dir_update_file)
  have w2: "open_write sp (Dir m ?es1) (path_join (path_join sp d) ?html) data
              = Inr (Dir m (AList.update d (Dir t (AList.update ?html (File data) ?des1)) es))"
    for data
    using write_file_entry[OF dir1 nd] by (simp add: open_write_def r2)
  show ?thesis
    by (simp add: w1 w2 Let_def)
qed

lemma convert_document_files:
  assumes sp: "sp \<noteq> []" and d: "plain_name d" and key: "CHR ''/'' \<notin> set key"
    and dir: "node_at fs [d] = Some (Dir t des)"
    and nd1: "\<not> os_path_isdir fs [d, normalize_filename key]"
    and nd2: "\<not> os_path_isdir fs [d, str_replace ''.md'' ''.html'' (normalize_filename key)]"
  shows "snd (convert_document markdown sp (path_join sp d) fs (key, md_content)) = Inr ()"
    and "node_at (fst (convert_document markdown sp (path_join sp d) fs (key, md_content)))
           [d, normalize_filename key] = Some (File (Text md_content))"
    and "node_at (fst (convert_document markdown sp (path_join sp d) fs (key, md_content)))
           [d, str_replace ''.md'' ''.html'' (normalize_filename key)]
         = Some (File (Text (html_document (str_replace ''.md'' ''.html'' (normalize_filename key))
                               (markdown md_content))))"
proof -
  obtain m es where fs: "fs = Dir m es" and e: "map_of es d = Some (Dir t des)"
    using dir by (rule fs_is_dir)
  have n1: "\<not> is_dir (map_of des (normalize_filename key))"
    using nd1 unfolding fs isdir_entry2[OF e] .
  have n2: "\<not> is_dir (map_of des (str_replace ''.md'' ''.html'' (normalize_filename key)))"
    using nd2 unfolding fs isdir_entry2[OF e] .
  note eq = convert_document_plain[OF sp d key e n1 n2, of markdown m md_content]
  show "snd (convert_document markdown sp (path_join sp d) fs (key, md_content)) = Inr ()"
    by (simp only: fs eq snd_conv)
  show "node_at (fst (convert_document markdown sp (path_join sp d) fs (key, md_content)))
           [d, normalize_filename key] = Some (File (Text md_content))"
    using html_filename_differs[of key] unfolding fs eq fst_conv
    by (simp add: node_at_entry2[where t = t] update_conv' del: node_at.simps)
  show "node_at (fst (convert_document markdown sp (path_join sp d) fs (key, md_content)))
           [d, str_replace ''.md'' ''.html'' (normalize_filename key)]
         = Some (File (Text (html_document (str_replace ''.md'' ''.html'' (normalize_filename key))
                               (markdown md_content))))"
    unfolding fs eq fst_conv
    by (simp add: node_at_entry2[where t = t] update_conv' del: node_at.simps)
qed

text \<open>
  Claim C7. For every rendered document the written HTML file is a standalone HTML
  document around the rendered fragment: the doctype and the opening of \<^verbatim>\<open>html\<close> and
  \<^verbatim>\<open>head\<close>, a UTF-8 charset meta tag, a responsive viewport meta tag, a title holding
  the output filename, a stylesheet link whose href is \<^verbatim>\<open>css/style.css\<close>, and the
  fragment inside \<^verbatim>\<open>body\<close>. The file lies directly in the conversion directory \<open>d\<close>,
  so the href is relative to the conversion root. The hypotheses say that the document is
  rendered: the conversion directory exists and neither output name is a directory.
\<close>

theorem rendered_html_document:
  assumes "sp \<noteq> []" and "plain_name d" and "CHR ''/'' \<notin> set key"
    and "node_at fs [d] = Some (Dir t des)"
    and "\<not> os_path_isdir fs [d, normalize_filename key]"
    and "\<not> os_path_isdir fs [d, str_replace ''.md'' ''.html'' (normalize_filename key)]"
  shows "let html_filename = str_replace ''.md'' ''.html'' (normalize_filename key);
             r = convert_document markdown sp (path_join sp d) fs (key, md_content)
         in snd r = Inr () \<and>
            node_at (fst r) [d, html_filename] = Some (File (Text (
              ''<!DOCTYPE html>\<newline><html lang=\"en\">\<newline><head>\<newline>    ''
              @ ''<meta charset=\"UTF-8\">'' @ ''\<newline>    ''
              @ ''<meta name=\"viewport\" content=\"width=device-width, initial-scale=1.0\">''
              @ ''\<newline>    ''
              @ ''<title>'' @ html_filename @ ''</title>'' @ ''\<newline>    ''
              @ ''<link rel=\"stylesheet\" href=\"css/style.css\">''
              @ ''\<newline></head>\<newline><body>\<newline>    ''
              @ markdown md_content
              @ ''\<newline></body>\<newline></html>'')))"
  using convert_document_files[OF assms, of markdown md_content]
  by (simp add: Let_def html_document_def)

lemma normalize_notes: "normalize_filename ''notes'' = ''notes.md''"
  by (simp add: normalize_filename_def endswith_def)

lemma replace_notes: "str_replace ''.md'' ''.html'' ''notes.md'' = ''notes.html''"
  by (simp add: str_replace.simps)

theorem rendered_html_document_witness:
  "''/data'' \<noteq> [] \<and> plain_name ''c1'' \<and> CHR ''/'' \<notin> set ''notes''
   \<and> \<not> os_path_isdir one_conversion [''c1'', ''notes.md'']
   \<and> \<not> os_path_isdir one_conversion [''c1'', ''notes.html'']
   \<and> node_at (fst (convert_document render_stub ''/data'' (path_join ''/data'' ''c1'')
                      one_conversion (''notes'', ''Hi''))) [''c1'', ''notes.html'']
       = Some (File (Text (html_document ''notes.html'' ''<p>Hi</p>'')))"
proof -
  have h: "''/data'' \<noteq> []" "plain_name ''c1''" "CHR ''/'' \<notin> set ''notes''"
    "node_at one_conversion [''c1'']
       = Some (Dir 5 [(''css'', Dir 5 [(''style.css'', File (Text base_css))])])"
    "\<not> os_path_isdir one_conversion [''c1'', normalize_filename ''notes'']"
    "\<not> os_path_isdir one_conversion
         [''c1'', str_replace ''.md'' ''.html'' (normalize_filename ''notes'')]"
    by (simp_all add: plain_name_def one_conversion_def os_path_isdir_def
          normalize_notes replace_notes)
  show ?thesis
    using h rendered_html_document[OF h, of render_stub "''Hi''"]
    by (simp add: Let_def normalize_notes replace_notes html_document_def render_stub_def)
qed

text \<open>
  Claim C8. Rendering writes the markdown text verbatim to the \<^verbatim>\<open>.md\<close> file, and
  two renders of the same filename and markdown text, in any two conversion directories
  of any two storage states, leave identical \<^verbatim>\<open>.md\<close> and \<^verbatim>\<open>.html\<close> file
  contents.
\<close>

theorem render_verbatim_deterministic:
  assumes "sp \<noteq> []" and "CHR ''/'' \<notin> set key"
    and "plain_name d" and "node_at fs [d] = Some (Dir t des)"
    and "\<not> os_path_isdir fs [d, normalize_filename key]"
    and "\<not> os_path_isdir fs [d, str_replace ''.md'' ''.html'' (normalize_filename key)]"
    and "plain_name d'" and "node_at fs' [d'] = Some (Dir t' des')"
    and "\<not> os_path_isdir fs' [d', normalize_filename key]"
    and "\<not> os_path_isdir fs' [d', str_replace ''.md'' ''.html'' (normalize_filename key)]"
  shows "let filename = normalize_filename key;
             html_filename = str_replace ''.md'' ''.html'' filename;
             r = convert_document markdown sp (path_join sp d) fs (key, md_content);
             r' = convert_document markdown sp (path_join sp d') fs' (key, md_content)
         in snd r = Inr () \<and> snd r' = Inr ()
            \<and> node_at (fst r) [d, filename] = Some (File (Text md_content))
            \<and> node_at (fst r') [d', filename] = node_at (fst r) [d, filename]
            \<and> node_at (fst r') [d', html_filename] = node_at (fst r) [d, html_filename]
            \<and> node_at (fst r) [d, html_filename] \<noteq> None"
  using convert_document_files[OF assms(1,3,2,4,5,6), of markdown md_content]
    convert_document_files[OF assms(1,7,2,8,9,10), of markdown md_content]
  by (simp add: Let_def)

theorem render_verbatim_deterministic_witness:
  "''/data'' \<noteq> [] \<and> CHR ''/'' \<notin> set ''notes'' \<and> plain_name ''c1'' \<and> plain_name ''c2''
   \<and> node_at (fst (convert_document render_stub ''/data'' (path_join ''/data'' ''c1'')
                      one_conversion (''notes'', ''# Hi''))) [''c1'', ''notes.md'']
       = Some (File (Text ''# Hi''))
   \<and> node_at (fst (convert_document render_stub ''/data'' (path_join ''/data'' ''c2'')
                      (Dir 0 [(''c2'', Dir 9 [])]) (''notes'', ''# Hi''))) [''c2'', ''notes.md'']
       = Some (File (Text ''# Hi''))"
proof -
  have h: "''/data'' \<noteq> []" "CHR ''/'' \<notin> set ''notes''"
    "plain_name ''c1''"
    "node_at one_conversion [''c1'']
       = Some (Dir 5 [(''css'', Dir 5 [(''style.css'', File (Text base_css))])])"
    "\<not> os_path_isdir one_conversion [''c1'', normalize_filename ''notes'']"
    "\<not> os_path_isdir one_conversion
         [''c1'', str_replace ''.md'' ''.html'' (normalize_filename ''notes'')]"
    "plain_name ''c2''"
    "node_at (Dir 0 [(''c2'', Dir 9 [])]) [''c2''] = Some (Dir 9 [])"
    "\<not> os_path_isdir (Dir 0 [(''c2'', Dir 9 [])]) [''c2'', normalize_filename ''notes'']"
    "\<not> os_path_isdir (Dir 0 [(''c2'', Dir 9 [])])
         [''c2'', str_replace ''.md'' ''.html'' (normalize_filename ''notes'')]"
    by (simp_all add: plain_name_def one_conversion_def os_path_isdir_def
          normalize_notes replace_notes)
  show ?thesis
    using h render_verbatim_deterministic[OF h, of render_stub "''# Hi''"]
    by (simp add: Let_def normalize_notes)
qed

subsection \<open>Allocation and the empty batch\<close>

lemma digit_char_not_sep: "digit_char d \<noteq> CHR ''/''"
  using is_lower_hex_digit_char[of d] by (auto simp: is_lower_hex_def)

lemma str_nat_no_sep: "CHR ''/'' \<notin> set (str_nat n)"
proof (induction n rule: less_induct)
  case (less n)
  show ?case
  proof (cases "n < 10")
    case True
    then show ?thesis using digit_char_not_sep[of n] by (simp add: str_nat_small)
  next
    case False
    then have "n div 10 < n" by simp
    from less[OF this] show ?thesis
      using False digit_char_not_sep[of "n mod 10"] by (simp add: str_nat_step)
  qed
qed

lemma strftime_no_sep: "CHR ''/'' \<notin> set (strftime now)"
  by (simp add: strftime_def pad2_def str_nat_no_sep)

lemma uuid_hex_no_sep: "CHR ''/'' \<notin> set (take 8 (uuid_hex u))"
  using uuid_suffix_hex[of u] by (auto simp: list_all_iff is_lower_hex_def)

lemma plain_conversion_dir_name:
  assumes "hint_ok user_id"
  shows "plain_name (conversion_dir_name user_id now u)"
proof -
  let ?n = "conversion_dir_name user_id now u"
  have len: "length (take 8 (uuid_hex u)) = 8" using uuid_suffix_hex[of u] by simp
  have "CHR ''/'' \<notin> set ?n"
    using assms strftime_no_sep[of now] uuid_hex_no_sep[of u]
    by (cases user_id) (auto simp: conversion_dir_name_def Let_def)
  moreover have "3 \<le> length ?n"
    using len by (simp add: conversion_dir_name_def Let_def)
  ultimately show ?thesis by (auto simp: plain_name_def)
qed

lemma takeWhile_stop:
  "\<forall>x \<in> set xs. P x \<Longrightarrow> \<not> P y \<Longrightarrow> takeWhile P (xs @ y # ys) = xs"
  by (induction xs) auto

lemma basename_path_join:
  assumes "sp \<noteq> []" "plain_name d"
  shows "basename (path_join sp d) = d"
proof -
  have nosep: "\<forall>c \<in> set (rev d). c \<noteq> CHR ''/''"
    using assms(2) by (auto simp: plain_name_def)
  have hd: "d \<noteq> []" "hd d \<noteq> CHR ''/''" using plain_name_ends[OF assms(2)] by simp_all
  show ?thesis
  proof (cases "last sp = CHR ''/''")
    case True
    then obtain sp' where sp: "sp = sp' @ ''/''"
      using assms(1) by (metis append_butlast_last_id)
    have "takeWhile (\<lambda>c. c \<noteq> CHR ''/'') (rev d @ CHR ''/'' # rev sp') = rev d"
      using nosep by (intro takeWhile_stop) simp_all
    then show ?thesis using hd by (simp add: basename_def path_join_def sp)
  next
    case False
    have "takeWhile (\<lambda>c. c \<noteq> CHR ''/'') (rev d @ CHR ''/'' # rev sp) = rev d"
      using nosep by (intro takeWhile_stop) simp_all
    then show ?thesis using hd False assms(1) by (simp add: basename_def path_join_def)
  qed
qed

lemma update_append_fresh:
  "map_of es k = None \<Longrightarrow> AList.update k v (es @ [(k, w)]) = es @ [(k, v)]"
  by (induction es) (auto split: if_splits)

lemma create_conversion_dir_fresh:
  assumes sp: "sp \<noteq> []" and h: "hint_ok user_id"
    and fresh: "map_of es (conversion_dir_name user_id now u) = None"
  shows "create_conversion_dir sp now t u (Dir m es) user_id =
           (Dir m (es @ [(conversion_dir_name user_id now u, Dir t [])]),
            Inr (path_join sp (conversion_dir_name user_id now u)))"
  using fresh
  by (simp add: create_conversion_dir_def makedirs_path_def Let_def
        resolve_dir[OF sp plain_conversion_dir_name[OF h]])

lemma create_base_css_fresh:
  assumes sp: "sp \<noteq> []" and d: "plain_name d" and fresh: "map_of es d = None"
  shows "create_base_css sp t (Dir m (es @ [(d, Dir t [])])) (path_join sp d) =
           (Dir m (es @ [(d, Dir t [(''css'', Dir t [(''style.css'', File (Text base_css))])])]),
            Inr (path_join (path_join (path_join sp d) ''css'') ''style.css''))"
proof -
  have c: "plain_name ''css''" "plain_name ''style.css''" by (simp_all add: plain_name_def)
  have r1: "resolve sp (path_join (path_join sp d) ''css'') = Some [d, ''css'']"
    by (rule resolve_dir_entry[OF sp d c(1)])
  have r2: "resolve sp (path_join (path_join (path_join sp d) ''css'') ''style.css'')
              = Some [d, ''css'', ''style.css'']"
    by (rule resolve_dir_entry2[OF sp d c])
  have m: "([d \<mapsto> x] ++ map_of es) d = Some x" for x
    using fresh by (simp add: map_add_def)
  show ?thesis
    by (simp add: create_base_css_def makedirs_path_def open_write_def Let_def r1 r2 m
          update_append_fresh[OF fresh])
qed

text \<open>
  Claim C9. \<^verbatim>\<open>convert_markdown_to_html\<close> accepts an empty document mapping: it
  allocates a fresh conversion directory, writes \<^verbatim>\<open>css/style.css\<close> into it and
  returns the pair of the conversion ID and the path; the conversion directory holds the
  stylesheet and no document files, and no error is raised. Fresh means that the storage
  root has no entry of the generated name.
\<close>

theorem convert_empty_mapping:
  assumes "sp \<noteq> []" and "hint_ok user_id"
    and "node_at (Dir m es) [conversion_dir_name user_id now u] = None"
  shows "convert_markdown_to_html markdown sp now t u (Dir m es) [] user_id =
           (Dir m (es @ [(conversion_dir_name user_id now u,
                          Dir t [(''css'', Dir t [(''style.css'', File (Text base_css))])])]),
            Inr (conversion_dir_name user_id now u,
                 path_join sp (conversion_dir_name user_id now u)))"
proof -
  have fresh: "map_of es (conversion_dir_name user_id now u) = None"
    using assms(3) by (simp only: node_at_entry)
  note d = plain_conversion_dir_name[OF assms(2), of now u]
  show ?thesis
    by (simp add: convert_markdown_to_html_def Let_def
          create_conversion_dir_fresh[OF assms(1,2) fresh]
          create_base_css_fresh[OF assms(1) d fresh]
          basename_path_join[OF assms(1) d])
qed

lemma anonymous_dir_name:
  "conversion_dir_name None new_year_2024 0 = ''anonymous_20240101000000_00000000''"
proof -
  have h: "take 8 (uuid_hex 0) = ''00000000''"
    by (simp add: uuid_hex_def digit_char_def upt_conv_Cons)
  show ?thesis
    by (simp add: conversion_dir_name_def h strftime_new_year_2024)
qed

theorem convert_empty_mapping_witness:
  "''/data'' \<noteq> [] \<and> hint_ok None
   \<and> node_at (Dir 0 []) [conversion_dir_name None new_year_2024 0] = None
   \<and> convert_markdown_to_html render_stub ''/data'' new_year_2024 7 0 (Dir 0 []) [] None =
        (Dir 0 [(''anonymous_20240101000000_00000000'',
                 Dir 7 [(''css'', Dir 7 [(''style.css'', File (Text base_css))])])],
         Inr (''anonymous_20240101000000_00000000'',
              ''/data/anonymous_20240101000000_00000000''))"
proof -
  have h: "''/data'' \<noteq> []" "hint_ok None"
    "node_at (Dir 0 []) [conversion_dir_name None new_year_2024 0] = None"
    by simp_all
  show ?thesis
    using h convert_empty_mapping[OF h, of render_stub 7]
    by (simp add: anonymous_dir_name path_join_def)
qed

subsection \<open>Archiving\<close>

lemma create_zip_missing:
  assumes "sp \<noteq> []" "plain_name conversion_id" "node_at fs [conversion_id] = None"
  shows "create_zip sp fs conversion_id = (fs, Inl FileNotFoundError)"
  using assms(3)
  by (simp add: create_zip_def Let_def resolve_dir[OF assms(1,2)] os_path_exists_def)

text \<open>
  Claim C4 asks that \<^verbatim>\<open>create_zip\<close> fails with a not-found error and creates no file
  whenever the conversion ID has no backing directory. The guard of the code is
  \<^verbatim>\<open>os.path.exists\<close>, which also holds for a regular file: on the ID \<^verbatim>\<open>c1.zip\<close>,
  which names an archive and no directory, the code raises nothing, creates the empty
  archive \<^verbatim>\<open>c1.zip.zip\<close> and returns its path.
\<close>

theorem create_zip_existing_file:
  "\<not> os_path_isdir archived_storage [''c1.zip'']
   \<and> create_zip ''/data'' archived_storage ''c1.zip'' =
       (Dir 0 [(''c1'', Dir 5 [(''notes.md'', File (Text ''Hi''))]),
               (''c1.zip'', File (Zip [(''notes.md'', Text ''Hi'')])),
               (''c1.zip.zip'', File (Zip []))],
        Inr ''/data/c1.zip.zip'')"
  by (simp add: archived_storage_def os_path_isdir_def os_path_exists_def create_zip_def
        open_write_def zip_entries_def path_join_def resolve_def components_def
        plain_name_def Let_def)

subsection \<open>Retention sweep\<close>

lemma rmtree_entries_unlocked: "rmtree_entries (\<lambda>p. False) p es = ([], True)"
  by (induction "\<lambda>p::string list. False" p es rule: rmtree_entries.induct) auto

lemma shutil_rmtree_unlocked:
  "map_of es n = Some (Dir t sub) \<Longrightarrow> shutil_rmtree (\<lambda>p. False) es n = (AList.delete n es, Inr ())"
  by (simp add: shutil_rmtree_def rmtree_entries_unlocked)

lemma os_remove_unlocked:
  "map_of es n = Some (File c) \<Longrightarrow> os_remove (\<lambda>p. False) es n = (AList.delete n es, Inr ())"
  by (simp add: os_remove_def)

lemma delete_absent: "map_of es k = None \<Longrightarrow> AList.delete k es = es"
  by (rule delete_id) (simp add: map_of_eq_None_iff)

lemma zip_name_differs: "n @ ''.zip'' \<noteq> n"
  by simp

lemma sweep_skip:
  "\<not> stale_node c (map_of es item) \<Longrightarrow>
     sweep locked c (item # items) es removed = sweep locked c items es removed"
  by (cases "(c, map_of es item)" rule: stale_node.cases) auto

lemma sweep_delete:
  assumes "map_of es item = Some (Dir t sub)" "t < c"
    and "\<not> is_dir (map_of es (item @ ''.zip''))"
  shows "sweep (\<lambda>p. False) c (item # items) es removed =
           sweep (\<lambda>p. False) c items
             (AList.delete (item @ ''.zip'') (AList.delete item es)) (removed @ [item])"
proof -
  let ?es1 = "AList.delete item es"
  have z: "map_of ?es1 (item @ ''.zip'') = map_of es (item @ ''.zip'')"
    by (rule map_of_delete) simp
  show ?thesis
  proof (cases "map_of es (item @ ''.zip'')")
    case None
    then show ?thesis
      using assms(1,2) z by (simp add: shutil_rmtree_unlocked delete_absent)
  next
    case (Some x)
    then obtain data where x: "x = File data"
      using assms(3) by (cases x) auto
    have "os_remove (\<lambda>p. False) ?es1 (item @ ''.zip'')
            = (AList.delete (item @ ''.zip'') ?es1, Inr ())"
      by (rule os_remove_unlocked[of _ _ data]) (simp only: z Some x)
    then show ?thesis
      using assms(1,2) z Some by (simp add: shutil_rmtree_unlocked)
  qed
qed

lemma stale_node_is_dir: "stale_node c x \<Longrightarrow> is_dir x"
  by (cases "(c, x)" rule: stale_node.cases) auto

lemma delete_two_filter:
  "AList.delete z (AList.delete k es) = [(n, x) \<leftarrow> es. n \<noteq> k \<and> n \<noteq> z]"
  by (induction es) auto

lemma map_of_delete_two:
  "map_of (AList.delete z (AList.delete k es)) n
     = (if n = k \<or> n = z then None else map_of es n)"
  by (simp add: delete_conv')

lemma sweep_unlocked:
  assumes "distinct items"
    and "\<forall>n. stale_node c (map_of es n) \<longrightarrow> \<not> is_dir (map_of es (n @ ''.zip''))"
  shows "sweep (\<lambda>p. False) c items es removed =
           ([(n, x) \<leftarrow> es. n \<notin> set [i \<leftarrow> items. stale_node c (map_of es i)]
                \<and> n \<notin> (\<lambda>r. r @ ''.zip'') ` set [i \<leftarrow> items. stale_node c (map_of es i)]],
            Inr (removed @ [i \<leftarrow> items. stale_node c (map_of es i)]))"
  using assms
proof (induction items arbitrary: es removed)
  case Nil
  show ?case by simp
next
  case (Cons item items)
  have dist: "distinct items" and fresh: "item \<notin> set items"
    using Cons.prems(1) by simp_all
  show ?case
  proof (cases "stale_node c (map_of es item)")
    case False
    then show ?thesis
      using Cons.IH[OF dist Cons.prems(2), of removed]
      by (simp add: sweep_skip[OF False] del: sweep.simps)
  next
    case True
    then obtain t sub where dir: "map_of es item = Some (Dir t sub)" and old: "t < c"
      by (cases "(c, map_of es item)" rule: stale_node.cases) auto
    let ?z = "item @ ''.zip''"
    let ?es2 = "AList.delete ?z (AList.delete item es)"
    have nz: "\<not> is_dir (map_of es ?z)"
      using Cons.prems(2) True by blast
    have step: "sweep (\<lambda>p. False) c (item # items) es removed =
                  sweep (\<lambda>p. False) c items ?es2 (removed @ [item])"
      by (rule sweep_delete[OF dir old nz])
    have same: "stale_node c (map_of ?es2 n) = stale_node c (map_of es n)" if "n \<noteq> item" for n
    proof (cases "n = ?z")
      case True
      then show ?thesis using nz stale_node_is_dir[of c "map_of es ?z"]
        by (auto simp: map_of_delete_two)
    next
      case False
      then show ?thesis using that by (simp add: map_of_delete_two)
    qed
    have R: "[i \<leftarrow> items. stale_node c (map_of ?es2 i)] = [i \<leftarrow> items. stale_node c (map_of es i)]"
    proof (rule filter_cong[OF refl])
      fix i assume "i \<in> set items"
      then have "i \<noteq> item" using fresh by auto
      then show "stale_node c (map_of ?es2 i) = stale_node c (map_of es i)" by (rule same)
    qed
    have Z2: "\<forall>n. stale_node c (map_of ?es2 n) \<longrightarrow> \<not> is_dir (map_of ?es2 (n @ ''.zip''))"
    proof (intro allI impI)
      fix n assume s: "stale_node c (map_of ?es2 n)"
      then have "n \<noteq> item" by (auto simp: map_of_delete_two)
      then have "stale_node c (map_of es n)" using s same by simp
      then have "\<not> is_dir (map_of es (n @ ''.zip''))" using Cons.prems(2) by blast
      then show "\<not> is_dir (map_of ?es2 (n @ ''.zip''))"
        by (auto simp: map_of_delete_two)
    qed
    have "sweep (\<lambda>p. False) c items ?es2 (removed @ [item]) =
           ([(n, x) \<leftarrow> ?es2. n \<notin> set [i \<leftarrow> items. stale_node c (map_of es i)]
                \<and> n \<notin> (\<lambda>r. r @ ''.zip'') ` set [i \<leftarrow> items. stale_node c (map_of es i)]],
            Inr ((removed @ [item]) @ [i \<leftarrow> items. stale_node c (map_of es i)]))"
      using Cons.IH[OF dist Z2, of "removed @ [item]"] by (simp only: R)
    then show ?thesis
      using True by (simp only: step) (auto simp: delete_two_filter intro: filter_cong)
  qed
qed

text \<open>
  Claim C3. For every retention period, \<^verbatim>\<open>cleanup_old_conversions\<close> removes exactly the
  entries of the storage root that are directories last modified strictly before
  \<open>now\<close> minus the retention period, removes the sibling \<^verbatim>\<open><id>.zip\<close> of each removed
  directory when present, ignores the other entries that are not directories, leaves
  directories modified at or after the cutoff untouched, and returns the removed names in
  listing order. The sweep is taken without storage failures: no deletion is refused
  and no removed directory has a directory for its \<^verbatim>\<open>.zip\<close> sibling.
\<close>

theorem sweep_removes_exactly_stale:
  assumes "distinct (map fst es)"
    and "list_all (\<lambda>n. \<not> is_dir (map_of es (n @ ''.zip'')))
           (expected_removed (now - real_of_int (days_to_keep * 24 * 60 * 60)) es)"
  shows "cleanup_old_conversions (\<lambda>p. False) now (Dir m es) days_to_keep =
           (Dir m (expected_kept (now - real_of_int (days_to_keep * 24 * 60 * 60)) es),
            Inr (expected_removed (now - real_of_int (days_to_keep * 24 * 60 * 60)) es))"
proof -
  let ?c = "now - real_of_int (days_to_keep * 24 * 60 * 60)"
  have Z: "\<forall>n. stale_node ?c (map_of es n) \<longrightarrow> \<not> is_dir (map_of es (n @ ''.zip''))"
  proof (intro allI impI)
    fix n assume s: "stale_node ?c (map_of es n)"
    then have "map_of es n \<noteq> None"
      using stale_node_is_dir[of ?c "map_of es n"] by (cases "map_of es n") auto
    then have "n \<in> set (map fst es)" by (auto simp: map_of_eq_None_iff)
    then have "n \<in> set (expected_removed ?c es)" using s by (simp add: expected_removed_def)
    then show "\<not> is_dir (map_of es (n @ ''.zip''))"
      using assms(2) by (auto simp: list_all_iff)
  qed
  have "sweep (\<lambda>p. False) ?c (map fst es) es [] =
          (expected_kept ?c es, Inr (expected_removed ?c es))"
    using sweep_unlocked[OF assms(1) Z, of "[]"]
    unfolding expected_kept_def expected_removed_def set_map append_Nil .
  then show ?thesis
    by (simp add: cleanup_old_conversions_def Let_def)
qed

theorem sweep_removes_exactly_stale_witness:
  "distinct (map fst swept_entries)
   \<and> expected_removed (604850 - real_of_int (7 * 24 * 60 * 60)) swept_entries = [''a'', ''c'']
   \<and> cleanup_old_conversions (\<lambda>p. False) 604850 (Dir 0 swept_entries) 7 =
        (Dir 0 [(''b'', Dir 1000000 []), (''d'', File (Text []))], Inr [''a'', ''c''])"
proof -
  have r: "expected_removed (604850 - real_of_int (7 * 24 * 60 * 60)) swept_entries = [''a'', ''c'']"
    by (simp add: expected_removed_def swept_entries_def)
  have h1: "distinct (map fst swept_entries)"
    by (simp add: swept_entries_def)
  have h2: "list_all (\<lambda>n. \<not> is_dir (map_of swept_entries (n @ ''.zip'')))
       (expected_removed (604850 - real_of_int (7 * 24 * 60 * 60)) swept_entries)"
    unfolding r by (simp add: swept_entries_def)
  note h = h1 h2
  have k: "expected_kept (604850 - real_of_int (7 * 24 * 60 * 60)) swept_entries
             = [(''b'', Dir 1000000 []), (''d'', File (Text []))]"
    unfolding expected_kept_def r by (simp add: swept_entries_def)
  show ?thesis
    using h(1) r sweep_removes_exactly_stale[OF h, of 0] by (simp only: k r)
qed

lemma sweep_append:
  "sweep locked c (xs @ ys) es removed =
     (case sweep locked c xs es removed of
        (es1, Inl e) \<Rightarrow> (es1, Inl e)
      | (es1, Inr r) \<Rightarrow> sweep locked c ys es1 r)"
  by (induction xs arbitrary: es removed)
     (auto split: option.splits node.splits prod.splits sum.splits)

lemma sweep_rmtree_fails:
  assumes "stale_node c (map_of es n)" "shutil_rmtree locked es n = (es2, Inl e)"
  shows "sweep locked c (n # items) es removed = (es2, Inl e)"
  using assms by (cases "(c, map_of es n)" rule: stale_node.cases) auto

lemma rmtree_failure_others:
  assumes "shutil_rmtree locked es n = (es2, Inl e)" "k \<noteq> n"
  shows "map_of es2 k = map_of es k"
  using assms
  by (auto simp: shutil_rmtree_def update_conv'
        split: option.splits node.splits prod.splits bool.splits if_splits)

text \<open>
  Claim C2 (as amended). A deletion failure on one entry ends the sweep at that entry:
  the error is raised to the caller as it is, no removed-list is returned, and the
  entries listed after the failing one are left as they were, stale or not. The
  entries removed before the failure stay removed. Here \<open>pre\<close> are the names listed
  before the failing entry \<open>n\<close>, and \<open>es1\<close> is the storage root after their sweep.
\<close>

theorem sweep_aborts_on_failure:
  assumes "map fst es = pre @ n # post"
    and "sweep locked (now - real_of_int (days_to_keep * 24 * 60 * 60)) pre es [] = (es1, Inr removed)"
    and "stale_node (now - real_of_int (days_to_keep * 24 * 60 * 60)) (map_of es1 n)"
    and "shutil_rmtree locked es1 n = (es2, Inl e)"
  shows "cleanup_old_conversions locked now (Dir m es) days_to_keep = (Dir m es2, Inl e)
         \<and> list_all (\<lambda>k. map_of es2 k = map_of es1 k) [k \<leftarrow> post. k \<noteq> n]"
proof -
  let ?c = "now - real_of_int (days_to_keep * 24 * 60 * 60)"
  have "sweep locked ?c (pre @ n # post) es [] = (es2, Inl e)"
    by (simp only: sweep_append assms(2) prod.case sum.case
          sweep_rmtree_fails[OF assms(3,4)])
  then have "cleanup_old_conversions locked now (Dir m es) days_to_keep = (Dir m es2, Inl e)"
    by (simp add: cleanup_old_conversions_def Let_def assms(1))
  moreover have "list_all (\<lambda>k. map_of es2 k = map_of es1 k) [k \<leftarrow> post. k \<noteq> n]"
    using rmtree_failure_others[OF assms(4)] by (simp add: list_all_iff)
  ultimately show ?thesis by simp
qed

theorem sweep_aborts_on_failure_witness:
  "map fst swept_entries = [''b''] @ ''a'' # [''a.zip'', ''c'', ''d'']
   \<and> stale_node (604850 - real_of_int (7 * 24 * 60 * 60)) (map_of swept_entries ''a'')
   \<and> cleanup_old_conversions (\<lambda>p. p = [''a'']) 604850 (Dir 0 swept_entries) 7 =
        (Dir 0 [(''b'', Dir 1000000 []), (''a'', Dir 1 []),
                (''a.zip'', File (Zip [(''notes.md'', Text ''Hi'')])),
                (''c'', Dir 2 []), (''d'', File (Text []))],
         Inl PermissionError)"
proof -
  have h: "map fst swept_entries = [''b''] @ ''a'' # [''a.zip'', ''c'', ''d'']"
    "sweep (\<lambda>p. p = [''a'']) (604850 - real_of_int (7 * 24 * 60 * 60)) [''b''] swept_entries []
       = (swept_entries, Inr [])"
    "stale_node (604850 - real_of_int (7 * 24 * 60 * 60)) (map_of swept_entries ''a'')"
    "shutil_rmtree (\<lambda>p. p = [''a'']) swept_entries ''a''
       = ([(''b'', Dir 1000000 []), (''a'', Dir 1 []),
           (''a.zip'', File (Zip [(''notes.md'', Text ''Hi'')])),
           (''c'', Dir 2 []), (''d'', File (Text []))], Inl PermissionError)"
    by (simp_all add: swept_entries_def shutil_rmtree_def)
  show ?thesis
    using h(1,3) sweep_aborts_on_failure[OF h, of 0] by simp
qed

text \<open>
  The claim as stated asks that the sweep goes on after a failure. With the deletion
  of \<^verbatim>\<open>a\<close> refused, the stale directory \<^verbatim>\<open>c\<close> listed after it is still there and
  the caller gets the error, not a list.
\<close>

theorem sweep_failure_counterexample:
  "stale_node (604850 - real_of_int (7 * 24 * 60 * 60)) (map_of swept_entries ''c'')
   \<and> snd (cleanup_old_conversions (\<lambda>p. p = [''a'']) 604850 (Dir 0 swept_entries) 7)
       = Inl PermissionError
   \<and> os_path_isdir
         (fst (cleanup_old_conversions (\<lambda>p. p = [''a'']) 604850 (Dir 0 swept_entries) 7)) [''c'']"
  by (simp add: cleanup_old_conversions_def swept_entries_def shutil_rmtree_def
        os_path_isdir_def Let_def)

lemma walk_paths_Cons:
  "walk_paths ((dp, dirs, files) # walk) = map (\<lambda>(file, data). dp @ [file]) files @ walk_paths walk"
  by (simp add: walk_paths_def)

lemma walk_paths_append: "walk_paths (a @ b) = walk_paths a @ walk_paths b"
  by (simp add: walk_paths_def)

lemma walk_paths_Nil: "walk_paths [] = []"
  by (simp add: walk_paths_def)

lemma files_of_entries:
  "map fst [(n, c). (n, File c) \<leftarrow> es] = file_names es"
  by (induction es rule: file_names.induct) auto

lemma regular_files_split:
  "set (regular_files es) = (\<lambda>n. [n]) ` set (file_names es) \<union> set (subdir_files es)"
  by (induction es rule: file_names.induct) auto

lemma regular_files_nonempty: "r \<in> set (regular_files es) \<Longrightarrow> r \<noteq> []"
  by (induction es rule: regular_files.induct) auto

lemma walk_paths_tree:
  "set (walk_paths (os_walk dp es)) = (\<lambda>r. dp @ r) ` set (regular_files es)"
  "set (walk_paths (walk_subdirs dp es)) = (\<lambda>r. dp @ r) ` set (subdir_files es)"
proof (induction dp es and dp es rule: os_walk_walk_subdirs.induct)
  case (1 dp es)
  have "map (\<lambda>(file, data). dp @ [file]) [(n, c). (n, File c) \<leftarrow> es]
          = map (\<lambda>n. dp @ [n]) (file_names es)"
    by (simp add: files_of_entries[symmetric] case_prod_unfold comp_def)
  then show ?case
    using 1 by (simp only: os_walk.simps walk_paths_Cons set_append set_map regular_files_split
        image_Un image_image)
next
  case (2 dp)
  show ?case by (simp add: walk_paths_Nil)
next
  case (3 dp n c es)
  then show ?case by simp
next
  case (4 dp n t sub es)
  then show ?case
    by (simp add: walk_paths_append image_Un image_image del: os_walk.simps)
qed

lemma zip_entry_names:
  "map fst (zip_entries cp walk) = map (\<lambda>p. relpath p cp) (walk_paths walk)"
  by (induction walk) (auto simp: zip_entries_def walk_paths_def case_prod_unfold comp_def)

lemma common_prefix_below: "longest_common_prefix (cp @ r) cp = cp"
proof (induction cp)
  case Nil
  show ?case by (cases r) simp_all
next
  case (Cons c cp)
  then show ?case by simp
qed

lemma relpath_below: "r \<noteq> [] \<Longrightarrow> relpath (cp @ r) cp = join_sep r"
  by (simp add: relpath_def common_prefix_below)

lemma archive_names_tree:
  "set (map fst (zip_entries cp (os_walk cp es))) = set (map join_sep (regular_files es))"
proof -
  have "set (map fst (zip_entries cp (os_walk cp es)))
          = (\<lambda>r. relpath (cp @ r) cp) ` set (regular_files es)"
    by (simp add: zip_entry_names walk_paths_tree(1) image_image del: os_walk.simps)
  also have "\<dots> = join_sep ` set (regular_files es)"
    by (intro image_cong refl relpath_below) (rule regular_files_nonempty)
  finally show ?thesis by simp
qed

lemma path_join_append:
  "b \<noteq> [] \<Longrightarrow> hd b \<noteq> CHR ''/'' \<Longrightarrow> path_join a b @ r = path_join a (b @ r)"
  by (cases b) (auto simp: path_join_def)

lemma create_zip_directory:
  assumes sp: "sp \<noteq> []" and cid: "plain_name conversion_id"
    and dir: "map_of es0 conversion_id = Some (Dir t es)"
    and nz: "\<not> is_dir (map_of es0 (conversion_id @ ''.zip''))"
  shows "create_zip sp (Dir m es0) conversion_id =
           (Dir m (AList.update (conversion_id @ ''.zip'')
                     (File (Zip (zip_entries [conversion_id] (os_walk [conversion_id] es)))) es0),
            Inr (path_join sp conversion_id @ ''.zip''))"
proof -
  let ?z = "conversion_id @ ''.zip''"
  have r1: "resolve sp (path_join sp conversion_id) = Some [conversion_id]"
    by (rule resolve_dir[OF sp cid])
  have r2: "resolve sp (path_join sp conversion_id @ ''.zip'') = Some [?z]"
    by (rule resolve_sibling[OF sp cid])
  have ex: "os_path_exists (Dir m es0) [conversion_id]"
    by (simp add: os_path_exists_def dir)
  have w1: "open_write sp (Dir m es0) (path_join sp conversion_id @ ''.zip'') (Zip [])
              = Inr (Dir m (AList.update ?z (File (Zip [])) es0))"
    using nz by (simp add: open_write_def r2)
  have at: "node_at (Dir m (AList.update ?z (File (Zip [])) es0)) [conversion_id]
              = Some (Dir t es)"
    by (simp add: update_conv' dir)
  have w2: "open_write sp (Dir m (AList.update ?z (File (Zip [])) es0))
              (path_join sp conversion_id @ ''.zip'') data
              = Inr (Dir m (AList.update ?z (File data) es0))" for data
    by (simp add: open_write_def r2 update_conv')
  show ?thesis
    unfolding create_zip_def Let_def r1 option.case
    by (simp only: ex not_True_eq_False if_False w1 sum.case at option.case node.case w2)
qed

text \<open>
  Claim C5. For every existing conversion directory, \<^verbatim>\<open>create_zip\<close> writes the archive
  at the path \<^verbatim>\<open>storageRoot/conversionID.zip\<close>, an entry of the storage root beside the
  conversion directory, which is left as it was; the names of the archive's entries are
  exactly the regular files of the directory tree, each by its path relative to the
  conversion root. The write of the archive is taken to succeed: no directory has the
  archive's name.
\<close>

theorem create_zip_entry_set:
  assumes "sp \<noteq> []" and "plain_name conversion_id"
    and "node_at fs [conversion_id] = Some (Dir t es)"
    and "\<not> os_path_isdir fs [conversion_id @ ''.zip'']"
  shows "let r = create_zip sp fs conversion_id
         in snd r = Inr (path_join sp (conversion_id @ ''.zip''))
            \<and> node_at (fst r) [conversion_id] = Some (Dir t es)
            \<and> node_at (fst r) [conversion_id @ ''.zip'']
                = Some (File (Zip (zip_entries [conversion_id] (os_walk [conversion_id] es))))
            \<and> set (map fst (zip_entries [conversion_id] (os_walk [conversion_id] es)))
                = set (map join_sep (regular_files es))"
proof -
  obtain m es0 where fs: "fs = Dir m es0" and dir: "map_of es0 conversion_id = Some (Dir t es)"
    using assms(3) by (rule fs_is_dir)
  have nz: "\<not> is_dir (map_of es0 (conversion_id @ ''.zip''))"
    using assms(4) unfolding fs os_path_isdir_def node_at_entry .
  have p: "path_join sp conversion_id @ ''.zip'' = path_join sp (conversion_id @ ''.zip'')"
    using plain_name_ends[OF assms(2)] by (intro path_join_append)
  note eq = create_zip_directory[OF assms(1,2) dir nz, of m]
  show ?thesis
    unfolding Let_def fs eq fst_conv snd_conv p
    using archive_names_tree[of "[conversion_id]" es]
    by (simp add: node_at_entry update_conv' dir del: node_at.simps os_walk.simps)
qed

theorem create_zip_entry_set_witness:
  "''/data'' \<noteq> [] \<and> plain_name ''c1''
   \<and> \<not> os_path_isdir tree_storage [''c1'' @ ''.zip'']
   \<and> map join_sep (regular_files [(''a'', File (Text ''A'')),
                                   (''b'', Dir 5 [(''c'', File (Text ''C''))])]) = [''a'', ''b/c'']
   \<and> create_zip ''/data'' tree_storage ''c1'' =
        (Dir 0 [(''c1'', Dir 5 [(''a'', File (Text ''A'')),
                               (''b'', Dir 5 [(''c'', File (Text ''C''))])]),
                (''c1.zip'', File (Zip [(''a'', Text ''A''), (''b/c'', Text ''C'')]))],
         Inr ''/data/c1.zip'')"
proof -
  have h: "''/data'' \<noteq> []" "plain_name ''c1''"
    "node_at tree_storage [''c1'']
       = Some (Dir 5 [(''a'', File (Text ''A'')), (''b'', Dir 5 [(''c'', File (Text ''C''))])])"
    "\<not> os_path_isdir tree_storage [''c1'' @ ''.zip'']"
    by (simp_all add: plain_name_def tree_storage_def os_path_isdir_def)
  have z: "zip_entries [''c1''] (os_walk [''c1''] [(''a'', File (Text ''A'')),
              (''b'', Dir 5 [(''c'', File (Text ''C''))])])
             = [(''a'', Text ''A''), (''b/c'', Text ''C'')]"
    by (simp add: zip_entries_def relpath_def)
  have e: "create_zip ''/data'' tree_storage ''c1'' =
        (Dir 0 [(''c1'', Dir 5 [(''a'', File (Text ''A'')),
                               (''b'', Dir 5 [(''c'', File (Text ''C''))])]),
                (''c1.zip'', File (Zip [(''a'', Text ''A''), (''b/c'', Text ''C'')]))],
         Inr ''/data/c1.zip'')"
    by (simp add: tree_storage_def os_path_exists_def create_zip_def
        open_write_def zip_entries_def relpath_def path_join_def resolve_def components_def
        plain_name_def Let_def)
  show ?thesis
    using h(1,2,4) create_zip_entry_set[OF h] e by simp
qed

subsection \<open>Converting a batch\<close>

lemma normalize_filename_stem: "normalize_filename key = stem key @ ''.md''"
proof (cases "endswith key ''.md''")
  case True
  then have "key = take (length key - 3) key @ ''.md''"
    by (metis append_take_drop_id endswith_def length_Cons list.size(3) numeral_3_eq_3)
  then show ?thesis using True by (simp add: normalize_filename_def stem_def)
next
  case False
  then show ?thesis by (simp add: normalize_filename_def stem_def)
qed

lemma no_md_prefix_append:
  assumes "\<not> prefix ''.md'' (c # cs)"
  shows "\<not> prefix ''.md'' (c # cs @ ''.md'')"
proof (cases cs)
  case Nil
  then show ?thesis by simp
next
  case (Cons x xs)
  then show ?thesis using assms by (cases xs) auto
qed

lemma replace_md_extension:
  "\<not> sublist ''.md'' b \<Longrightarrow> str_replace ''.md'' ''.html'' (b @ ''.md'') = b @ ''.html''"
proof (induction b)
  case Nil
  have "prefix ''.md'' ''.md''" by simp
  from replace_md_hit[OF this] show ?case by (simp add: replace_md_Nil)
next
  case (Cons c cs)
  have np: "\<not> prefix ''.md'' (c # cs)" and ns: "\<not> sublist ''.md'' cs"
    using Cons.prems by (simp_all add: sublist_Cons_right)
  have "\<not> prefix ''.md'' (c # (cs @ ''.md''))"
    using no_md_prefix_append[OF np] by simp
  from replace_md_miss[OF this] show ?case
    using Cons.IH[OF ns] by simp
qed

lemma html_filename_stem:
  "document_key key \<Longrightarrow>
     str_replace ''.md'' ''.html'' (normalize_filename key) = stem key @ ''.html''"
  by (simp add: normalize_filename_stem document_key_def replace_md_extension)

lemma update_fresh: "map_of es k = None \<Longrightarrow> AList.update k v es = es @ [(k, v)]"
  by (induction es) (auto split: if_splits)

lemma convert_document_fresh:
  assumes sp: "sp \<noteq> []" and d: "plain_name d" and key: "document_key key"
    and dir: "map_of es d = Some (Dir t des)"
    and dist: "distinct (map fst (des @ expected_files markdown (key, md_content)))"
  shows "convert_document markdown sp (path_join sp d) (Dir m es) (key, md_content) =
           (Dir m (AList.update d (Dir t (des @ expected_files markdown (key, md_content))) es),
            Inr ())"
proof -
  let ?fn = "stem key @ ''.md''"
  let ?html = "stem key @ ''.html''"
  have k: "CHR ''/'' \<notin> set key" using key by (simp add: document_key_def)
  have fn: "normalize_filename key = ?fn" by (rule normalize_filename_stem)
  have html: "str_replace ''.md'' ''.html'' (normalize_filename key) = ?html"
    by (rule html_filename_stem[OF key])
  have f1: "map_of des ?fn = None" and f2: "map_of des ?html = None"
    using dist by (auto simp: map_of_eq_None_iff)
  have f3: "map_of (des @ [(?fn, x)]) ?html = None" for x
    using f2 by (simp add: map_add_def)
  have nd1: "\<not> is_dir (map_of des (normalize_filename key))"
    by (simp only: fn f1) simp
  have nd2: "\<not> is_dir (map_of des (str_replace ''.md'' ''.html'' (normalize_filename key)))"
    by (simp only: html f2) simp
  have html': "str_replace ''.md'' ''.html'' ?fn = ?html"
    using html by (simp only: fn)
  show ?thesis
    unfolding convert_document_plain[OF sp d k dir nd1 nd2] fn html'
    by (simp add: update_fresh[OF f1] update_fresh[OF f3])
qed

lemma convert_documents_fresh:
  assumes sp: "sp \<noteq> []" and d: "plain_name d"
    and keys: "list_all document_key (map fst items)"
    and dir: "map_of es d = Some (Dir t des)"
    and dist: "distinct (map fst (des @ concat (map (expected_files markdown) items)))"
  shows "convert_documents markdown sp (path_join sp d) (Dir m es) items =
           (Dir m (AList.update d
                     (Dir t (des @ concat (map (expected_files markdown) items))) es),
            Inr ())"
  using keys dir dist
proof (induction items arbitrary: es des)
  case Nil
  then show ?case by (simp add: update_triv)
next
  case (Cons item items)
  obtain key md_content where item: "item = (key, md_content)" by (cases item)
  let ?des1 = "des @ expected_files markdown (key, md_content)"
  let ?es1 = "AList.update d (Dir t ?des1) es"
  have key: "document_key key" and rest: "list_all document_key (map fst items)"
    using Cons.prems(1) by (simp_all add: item)
  have d1: "distinct (map fst ?des1)"
    using Cons.prems(3) by (simp add: item)
  have step: "convert_document markdown sp (path_join sp d) (Dir m es) (key, md_content)
                = (Dir m ?es1, Inr ())"
    by (rule convert_document_fresh[OF sp d key Cons.prems(2) d1])
  have dir1: "map_of ?es1 d = Some (Dir t ?des1)"
    by (simp add: update_conv')
  have dist1: "distinct (map fst (?des1 @ concat (map (expected_files markdown) items)))"
    using Cons.prems(3) by (simp add: item)
  have "convert_documents markdown sp (path_join sp d) (Dir m ?es1) items =
          (Dir m (AList.update d
                    (Dir t (?des1 @ concat (map (expected_files markdown) items))) ?es1),
           Inr ())"
    by (rule Cons.IH[OF rest dir1 dist1])
  then show ?case
    by (simp add: item step del: convert_document.simps expected_files.simps)
qed

lemma expected_names_member:
  assumes "x \<in> set (map fst (concat (map (expected_files markdown) content)))"
  shows "\<exists>k \<in> set (map fst content). x = stem k @ ''.md'' \<or> x = stem k @ ''.html''"
  using assms by (induction content) auto

lemma extension_differs: "a @ ''.md'' \<noteq> b @ ''.html''"
proof
  assume "a @ ''.md'' = b @ ''.html''"
  then have "last (a @ ''.md'') = last (b @ ''.html'')" by (rule arg_cong)
  then show False by simp
qed

lemma css_not_document: "''css'' \<noteq> a @ ''.md''" "''css'' \<noteq> a @ ''.html''"
proof -
  show "''css'' \<noteq> a @ ''.md''"
  proof
    assume "''css'' = a @ ''.md''"
    then have "last ''css'' = last (a @ ''.md'')" by (rule arg_cong)
    then show False by simp
  qed
  show "''css'' \<noteq> a @ ''.html''"
  proof
    assume "''css'' = a @ ''.html''"
    then have "last ''css'' = last (a @ ''.html'')" by (rule arg_cong)
    then show False by simp
  qed
qed

lemma expected_names_fresh:
  assumes new: "stem key \<notin> set (map (\<lambda>i. stem (fst i)) content)"
    and y: "y = stem key @ ''.md'' \<or> y = stem key @ ''.html''"
  shows "y \<notin> set (map fst (concat (map (expected_files markdown) content)))"
proof
  assume "y \<in> set (map fst (concat (map (expected_files markdown) content)))"
  then obtain k where k: "k \<in> set (map fst content)"
    and yk: "y = stem k @ ''.md'' \<or> y = stem k @ ''.html''"
    using expected_names_member by blast
  have ne: "stem k \<noteq> stem key" using k new by force
  from y show False
  proof
    assume a: "y = stem key @ ''.md''"
    from yk show False
    proof
      assume "y = stem k @ ''.md''"
      then show False using a ne by simp
    next
      assume "y = stem k @ ''.html''"
      then show False using a extension_differs[of "stem key" "stem k"] by simp
    qed
  next
    assume a: "y = stem key @ ''.html''"
    from yk show False
    proof
      assume "y = stem k @ ''.md''"
      then show False using a extension_differs[of "stem k" "stem key"] by simp
    next
      assume "y = stem k @ ''.html''"
      then show False using a ne by simp
    qed
  qed
qed

lemma expected_docs_distinct:
  "distinct (map (\<lambda>i. stem (fst i)) content) \<Longrightarrow>
     distinct (map fst (concat (map (expected_files markdown) content)))"
proof (induction content)
  case Nil
  show ?case by simp
next
  case (Cons item content)
  obtain key md_content where item: "item = (key, md_content)" by (cases item)
  have new: "stem key \<notin> set (map (\<lambda>i. stem (fst i)) content)"
    and rest: "distinct (map (\<lambda>i. stem (fst i)) content)"
    using Cons.prems by (simp_all add: item)
  have "stem key @ ''.md'' \<notin> set (map fst (concat (map (expected_files markdown) content)))"
    "stem key @ ''.html'' \<notin> set (map fst (concat (map (expected_files markdown) content)))"
    by (rule expected_names_fresh[OF new], simp)+
  then show ?case
    using Cons.IH[OF rest] by (simp add: item)
qed

lemma expected_names_distinct:
  assumes "distinct (map (normalize_filename \<circ> fst) content)"
  shows "distinct (map fst ((''css'', x) # concat (map (expected_files markdown) content)))"
proof -
  have eq: "map (normalize_filename \<circ> fst) content
          = map (\<lambda>s. s @ ''.md'') (map (\<lambda>i. stem (fst i)) content)"
    by (simp add: normalize_filename_stem)
  have "distinct (map (\<lambda>s. s @ ''.md'') (map (\<lambda>i. stem (fst i)) content))"
    using assms unfolding eq .
  then have stems: "distinct (map (\<lambda>i. stem (fst i)) content)"
    using distinct_map by blast
  have "''css'' \<notin> set (map fst (concat (map (expected_files markdown) content)))"
  proof
    assume "''css'' \<in> set (map fst (concat (map (expected_files markdown) content)))"
    then obtain k where "''css'' = stem k @ ''.md'' \<or> ''css'' = stem k @ ''.html''"
      using expected_names_member by blast
    then show False using css_not_document[of "stem k"] by blast
  qed
  then show ?thesis using expected_docs_distinct[OF stems, of markdown] by simp
qed

lemma convert_markdown_to_html_steps:
  assumes "create_conversion_dir sp now t u fs user_id = (fs1, Inr conversion_dir)"
    and "create_base_css sp t fs1 conversion_dir = (fs2, Inr css_file)"
    and "convert_documents markdown sp conversion_dir fs2 content = (fs3, Inr ())"
  shows "convert_markdown_to_html markdown sp now t u fs content user_id
           = (fs3, Inr (basename conversion_dir, conversion_dir))"
  by (simp add: convert_markdown_to_html_def assms Let_def)

text \<open>
  Claim C1 (as amended). For every mapping of document names to markdown text whose keys
  are plain names that hold \<^verbatim>\<open>.md\<close> at most as their final extension and that normalize
  to pairwise distinct filenames, \<^verbatim>\<open>convert_markdown_to_html\<close> on a fresh allocation
  produces a conversion directory holding exactly \<^verbatim>\<open>css/style.css\<close> and, per input
  entry, one \<^verbatim>\<open>.md\<close> file with the markdown text and one \<^verbatim>\<open>.html\<close> file of the same
  base name; the HTML filename is the markdown filename with its \<^verbatim>\<open>.md\<close> extension
  replaced by \<^verbatim>\<open>.html\<close>. All names in the directory are distinct.
\<close>

theorem convert_batch_files:
  assumes "sp \<noteq> []" and "hint_ok user_id"
    and "node_at (Dir m es) [conversion_dir_name user_id now u] = None"
    and "list_all document_key (map fst content)"
    and "distinct (map (normalize_filename \<circ> fst) content)"
  shows "convert_markdown_to_html markdown sp now t u (Dir m es) content user_id =
           (Dir m (es @ [(conversion_dir_name user_id now u,
                          Dir t ((''css'', Dir t [(''style.css'', File (Text base_css))])
                                 # concat (map (expected_files markdown) content)))]),
            Inr (conversion_dir_name user_id now u,
                 path_join sp (conversion_dir_name user_id now u)))
         \<and> distinct (map fst ((''css'', Dir t [(''style.css'', File (Text base_css))])
                                 # concat (map (expected_files markdown) content)))"
proof -
  let ?dn = "conversion_dir_name user_id now u"
  let ?css = "(''css'', Dir t [(''style.css'', File (Text base_css))])"
  let ?docs = "concat (map (expected_files markdown) content)"
  let ?es2 = "es @ [(?dn, Dir t [?css])]"
  have fresh: "map_of es ?dn = None"
    using assms(3) by (simp only: node_at_entry)
  note d = plain_conversion_dir_name[OF assms(2), of now u]
  have dist: "distinct (map fst (?css # ?docs))"
    by (rule expected_names_distinct[OF assms(5)])
  then have dist': "distinct (map fst ([?css] @ ?docs))" by simp
  have dir: "map_of ?es2 ?dn = Some (Dir t [?css])"
    using fresh by (simp add: map_add_def)
  have upd: "AList.update ?dn (Dir t ([?css] @ ?docs)) ?es2 = es @ [(?dn, Dir t (?css # ?docs))]"
    using update_append_fresh[OF fresh, of "Dir t ([?css] @ ?docs)" "Dir t [?css]"] by simp
  have loop: "convert_documents markdown sp (path_join sp ?dn) (Dir m ?es2) content =
                (Dir m (es @ [(?dn, Dir t (?css # ?docs))]), Inr ())"
    using convert_documents_fresh[OF assms(1) d assms(4) dir dist', of m]
    by (simp only: upd)
  have "convert_markdown_to_html markdown sp now t u (Dir m es) content user_id =
           (Dir m (es @ [(?dn, Dir t (?css # ?docs))]),
            Inr (basename (path_join sp ?dn), path_join sp ?dn))"
    by (rule convert_markdown_to_html_steps[OF
          create_conversion_dir_fresh[OF assms(1,2) fresh]
          create_base_css_fresh[OF assms(1) d fresh] loop])
  then show ?thesis
    using dist by (simp only: basename_path_join[OF assms(1) d] simp_thms)
qed

lemma stem_examples: "stem ''notes'' = ''notes''" "stem ''readme.md'' = ''readme''"
  by (simp_all add: stem_def endswith_def)

theorem convert_batch_files_witness:
  "''/data'' \<noteq> [] \<and> hint_ok None
   \<and> list_all document_key (map fst two_documents)
   \<and> distinct (map (normalize_filename \<circ> fst) two_documents)
   \<and> os_listdir (fst (convert_markdown_to_html render_stub ''/data'' new_year_2024 7 0
                         (Dir 0 []) two_documents None))
         [''anonymous_20240101000000_00000000'']
       = [''css'', ''notes.md'', ''notes.html'', ''readme.md'', ''readme.html'']"
proof -
  have h: "''/data'' \<noteq> []" "hint_ok None"
    "node_at (Dir 0 []) [conversion_dir_name None new_year_2024 0] = None"
    "list_all document_key (map fst two_documents)"
    "distinct (map (normalize_filename \<circ> fst) two_documents)"
    by (simp_all add: two_documents_def document_key_def stem_examples sublist_Cons_right
          normalize_filename_def endswith_def)
  have e: "map fst (concat (map (expected_files render_stub) two_documents))
             = [''notes.md'', ''notes.html'', ''readme.md'', ''readme.html'']"
    by (simp add: two_documents_def stem_examples)
  show ?thesis
    using h(1,2,4,5) convert_batch_files[OF h, of render_stub 7] e
    by (simp add: os_listdir_def anonymous_dir_name)
qed

lemma first_allocation:
  "create_conversion_dir ''/data'' new_year_2024 7 0 (Dir 0 []) None =
     (Dir 0 [(''anonymous_20240101000000_00000000'', Dir 7 [])],
      Inr (path_join ''/data'' ''anonymous_20240101000000_00000000''))"
  using create_conversion_dir_fresh[of "''/data''" None "[]" new_year_2024 0 7 0]
  by (simp add: anonymous_dir_name)

lemma first_stylesheet:
  "create_base_css ''/data'' 7 (Dir 0 [(''anonymous_20240101000000_00000000'', Dir 7 [])])
       (path_join ''/data'' ''anonymous_20240101000000_00000000'') =
     (Dir 0 [(''anonymous_20240101000000_00000000'',
              Dir 7 [(''css'', Dir 7 [(''style.css'', File (Text base_css))])])],
      Inr (path_join (path_join (path_join ''/data'' ''anonymous_20240101000000_00000000'')
             ''css'') ''style.css''))"
  using create_base_css_fresh[of "''/data''" "''anonymous_20240101000000_00000000''" "[]" 7 0]
  by (simp add: plain_name_def)

lemma colliding_keys_loop:
  "convert_documents render_stub ''/data''
       (path_join ''/data'' ''anonymous_20240101000000_00000000'')
       (Dir 0 [(''anonymous_20240101000000_00000000'',
                Dir 7 [(''css'', Dir 7 [(''style.css'', File (Text base_css))])])])
       [(''b'', ''y''), (''b.md'', ''z'')] =
     (Dir 0 [(''anonymous_20240101000000_00000000'',
              Dir 7 [(''css'', Dir 7 [(''style.css'', File (Text base_css))]),
                     (''b.md'', File (Text ''z'')),
                     (''b.html'', File (Text (html_document ''b.html'' (render_stub ''z''))))])],
      Inr ())"
  by (simp add: open_write_def path_join_def resolve_def components_def plain_name_def
        normalize_filename_def endswith_def str_replace.simps Let_def)

lemma inner_extension_loop:
  "convert_documents render_stub ''/data''
       (path_join ''/data'' ''anonymous_20240101000000_00000000'')
       (Dir 0 [(''anonymous_20240101000000_00000000'',
                Dir 7 [(''css'', Dir 7 [(''style.css'', File (Text base_css))])])])
       [(''a.md.notes'', ''x'')] =
     (Dir 0 [(''anonymous_20240101000000_00000000'',
              Dir 7 [(''css'', Dir 7 [(''style.css'', File (Text base_css))]),
                     (''a.md.notes.md'', File (Text ''x'')),
                     (''a.html.notes.html'',
                      File (Text (html_document ''a.html.notes.html'' (render_stub ''x''))))])],
      Inr ())"
  by (simp add: open_write_def path_join_def resolve_def components_def plain_name_def
        normalize_filename_def endswith_def str_replace.simps Let_def)

text \<open>
  The claim as stated covers every key. The keys \<^verbatim>\<open>b\<close> and \<^verbatim>\<open>b.md\<close> normalize to
  the same filename, and the two entries leave one \<^verbatim>\<open>.md\<close> and one \<^verbatim>\<open>.html\<close> file;
  for the key \<^verbatim>\<open>a.md.notes\<close> every \<^verbatim>\<open>.md\<close> of the filename is replaced, and the
  two files do not have the same base name.
\<close>

theorem convert_batch_counterexample:
  "os_listdir (fst (convert_markdown_to_html render_stub ''/data'' new_year_2024 7 0 (Dir 0 [])
                      [(''b'', ''y''), (''b.md'', ''z'')] None))
       [''anonymous_20240101000000_00000000'']
     = [''css'', ''b.md'', ''b.html'']
   \<and> os_listdir (fst (convert_markdown_to_html render_stub ''/data'' new_year_2024 7 0 (Dir 0 [])
                      [(''a.md.notes'', ''x'')] None))
       [''anonymous_20240101000000_00000000'']
     = [''css'', ''a.md.notes.md'', ''a.html.notes.html'']"
  by (simp add: os_listdir_def
        convert_markdown_to_html_steps[OF first_allocation first_stylesheet colliding_keys_loop]
        convert_markdown_to_html_steps[OF first_allocation first_stylesheet inner_extension_loop])

end
